theory Spec2Isabelle
  imports Main "HOL-Library.AList" "HOL-Library.Char_ord" "HOL-Library.List_Lexorder"
    "HOL-Library.Product_Lexorder"
begin

section \<open>The persisted state: four append/tombstone-only collections\<close>

text \<open>
  The four SQLite tables created by \<open>_create_fresh_schema\<close>.  Row ids of the SQLite
  tables are \<open>INTEGER PRIMARY KEY AUTOINCREMENT\<close>, hence positive integers handed out in
  increasing order; they are modelled as natural numbers.  \<open>TEXT\<close> columns are strings, a
  nullable column is an \<open>option\<close>.  Timestamps are the fixed-width texts produced by
  \<open>strftime\<close>; they are compared as strings, as JavaScript and SQLite do.
\<close>

type_synonym timestamp = string

record table_rec =
  t_id :: nat
  t_name :: string
  t_created_at :: timestamp
  t_deleted_at :: "timestamp option"

record column_rec =
  c_id :: nat
  c_table_id :: nat
  c_name :: string
  c_display_order :: int
  c_is_unique :: int
  c_created_at :: timestamp
  c_deleted_at :: "timestamp option"

record cell_event =
  e_id :: nat
  e_table_id :: nat
  e_row_id :: string
  e_column_id :: "nat option"
  e_sentinel :: "string option"
  e_value :: "string option"
  e_timestamp :: timestamp

record foreign_key =
  fk_id :: nat
  fk_from_column_id :: nat
  fk_to_table_id :: nat
  fk_created_at :: timestamp
  fk_deleted_at :: "timestamp option"

record db =
  tables :: "table_rec list"
  columns :: "column_rec list"
  cell_history :: "cell_event list"
  foreign_keys :: "foreign_key list"

section \<open>The shared SQL fragments\<close>

text \<open>
  SQL \<open>MAX\<close> over the ids of a group.  A \<open>GROUP BY\<close> group is never empty and ids are
  natural numbers, so folding \<open>max\<close> from \<open>0\<close> is the aggregate.
\<close>

fun sql_max :: "nat list \<Rightarrow> nat" where
  "sql_max [] = 0"
| "sql_max (x # xs) = max x (sql_max xs)"

text \<open>\<open>FROM cell_history WHERE table_id = ? AND sentinel IS NULL\<close>\<close>

definition cell_rows :: "db \<Rightarrow> nat \<Rightarrow> cell_event list" where
  "cell_rows d tid = filter (\<lambda>e. e_table_id e = tid \<and> e_sentinel e = None) (cell_history d)"

text \<open>
  The common table expression \<open>latest\<close>:
  \<open>SELECT row_id, column_id, MAX(id) AS max_id ... GROUP BY row_id, column_id\<close>.
\<close>

definition latest :: "db \<Rightarrow> nat \<Rightarrow> (string \<times> nat option \<times> nat) list" where
  "latest d tid =
     (let evs = cell_rows d tid in
      map (\<lambda>(r, c). (r, c, sql_max (map e_id (filter (\<lambda>e. e_row_id e = r \<and> e_column_id e = c) evs))))
          (remdups (map (\<lambda>e. (e_row_id e, e_column_id e)) evs)))"

text \<open>\<open>FROM cell_history WHERE table_id = ? AND sentinel = '__deleted__'\<close>\<close>

definition lifecycle_rows :: "db \<Rightarrow> nat \<Rightarrow> cell_event list" where
  "lifecycle_rows d tid =
     filter (\<lambda>e. e_table_id e = tid \<and> e_sentinel e = Some ''__deleted__'') (cell_history d)"

text \<open>\<open>MAX(CASE WHEN value = v THEN id ELSE 0 END)\<close> over a group.\<close>

definition max_case :: "string \<Rightarrow> cell_event list \<Rightarrow> nat" where
  "max_case v g = sql_max (map (\<lambda>e. if e_value e = Some v then e_id e else 0) g)"

text \<open>
  The common table expression \<open>deleted_rows\<close>: \<open>GROUP BY row_id HAVING
  MAX(CASE WHEN value = '1' ...) > MAX(CASE WHEN value = '0' ...)\<close>.
\<close>

definition deleted_rows :: "db \<Rightarrow> nat \<Rightarrow> string list" where
  "deleted_rows d tid =
     (let evs = lifecycle_rows d tid in
      filter (\<lambda>r. let g = filter (\<lambda>e. e_row_id e = r) evs
                  in max_case ''1'' g > max_case ''0'' g)
             (remdups (map e_row_id evs)))"

text \<open>
  \<open>FROM latest l JOIN cell_history ch ON ch.id = l.max_id\<close>, the join every query
  on current values starts from.
\<close>

definition latest_join :: "db \<Rightarrow> nat \<Rightarrow> (string \<times> nat option \<times> cell_event) list" where
  "latest_join d tid =
     [(r, cid, ch). (r, cid, mx) \<leftarrow> latest d tid, ch \<leftarrow> cell_history d, e_id ch = mx]"

section \<open>Errors and outcomes\<close>

text \<open>
  Every \<open>throw\<close> of the worker is a constructor.  \<open>SqliteUnique\<close> is the error the
  storage engine raises when an \<open>INSERT\<close> violates a \<open>UNIQUE\<close> constraint of the schema
  and the caller does not translate it; \<open>EngineFault\<close> is any other failure of a
  statement (an I/O error, a full disk); \<open>TypeError\<close> is the error the JavaScript engine
  raises when a property of \<open>undefined\<close> is assigned.
\<close>

datatype error =
    TableNameEmpty
  | TableExists string
  | SqliteUnique string
  | ColumnNameEmpty
  | ColumnExists string
  | ColumnNotFound
  | DuplicateValues string
  | UniqueViolation string string
  | FkTargetMissing string
  | TableHasLiveRows nat
  | RowReferenced nat string
  | NoValidColumns
  | SelfReference
  | TargetTableNotFound
  | ColumnHasForeignKey
  | EngineFault
  | TypeError

text \<open>
  A mutating operation returns what the caller sees together with the database it leaves
  behind, so that a failure after a write is visible in the model.
\<close>

type_synonym 'a outcome = "(error + 'a) \<times> db"

section \<open>JavaScript objects used as dictionaries\<close>

text \<open>
  The worker keeps \<open>colMap\<close>, \<open>rowMap\<close> and the \<open>cells\<close> of a row in objects created by
  \<open>{}\<close>.  Such an object inherits the members of \<open>Object.prototype\<close>: reading one of the
  names below on an object that does not own it yields the inherited member, which is
  neither \<open>undefined\<close> nor falsy and has no property \<open>id\<close>, \<open>is_unique\<close> or \<open>cells\<close>.
\<close>

definition proto_names :: "string list" where
  "proto_names =
     [''constructor'', ''hasOwnProperty'', ''isPrototypeOf'', ''propertyIsEnumerable'',
      ''toLocaleString'', ''toString'', ''valueOf'', ''__proto__'', ''__defineGetter__'',
      ''__defineSetter__'', ''__lookupGetter__'', ''__lookupSetter__'']"

text \<open>
  The own properties of an object are enumerated (by \<open>Object.values\<close>, by
  \<open>Object.entries\<close>, by the structured clone of a message) with the array indices first,
  in ascending numeric order, then the other names in the order of their creation.  An
  array index is the canonical decimal numeral of a number below \<open>2^32 - 1\<close>; among
  such numerals the numeric order is the order by length, then by text.
\<close>

definition is_digit :: "char \<Rightarrow> bool" where
  "is_digit c \<longleftrightarrow> CHR ''0'' \<le> c \<and> c \<le> CHR ''9''"

definition array_index :: "string \<Rightarrow> bool" where
  "array_index s \<longleftrightarrow>
     s \<noteq> [] \<and> list_all is_digit s \<and> \<not> (hd s = CHR ''0'' \<and> tl s \<noteq> []) \<and>
     (length s < 10 \<or> (length s = 10 \<and> s \<le> ''4294967294''))"

definition own_entries :: "(string \<times> 'a) list \<Rightarrow> (string \<times> 'a) list" where
  "own_entries al =
     sort_key (\<lambda>p. (length (fst p), fst p)) (filter (\<lambda>p. array_index (fst p)) al) @
     filter (\<lambda>p. \<not> array_index (fst p)) al"

section \<open>Row reconstruction\<close>

record recon_record =
  rr_row_id :: string
  rr_column_id :: nat
  rr_column_name :: string
  rr_display_order :: int
  rr_is_unique :: int
  rr_value :: "string option"
  rr_last_modified :: timestamp

text \<open>The \<open>SELECT\<close> list of \<open>_reconstruction_sql\<close>.\<close>

definition recon_row :: "string \<Rightarrow> column_rec \<Rightarrow> cell_event \<Rightarrow> recon_record" where
  "recon_row r c ch =
     \<lparr>rr_row_id = r, rr_column_id = c_id c, rr_column_name = c_name c,
      rr_display_order = c_display_order c, rr_is_unique = c_is_unique c,
      rr_value = e_value ch, rr_last_modified = e_timestamp ch\<rparr>"

text \<open>
  \<open>_reconstruction_sql\<close>: \<open>latest\<close> joined with the event carrying the maximal id and
  with the column of that id, restricted to live columns and to rows outside
  \<open>deleted_rows\<close>, ordered by row id and display order.
\<close>

definition reconstruction_sql :: "db \<Rightarrow> nat \<Rightarrow> recon_record list" where
  "reconstruction_sql d tid =
     sort_key (\<lambda>r. (rr_row_id r, rr_display_order r))
       [recon_row r c ch.
        (r, cid, ch) \<leftarrow> latest_join d tid,
        c \<leftarrow> columns d, cid = Some (c_id c), c_deleted_at c = None,
        r \<notin> set (deleted_rows d tid)]"

text \<open>
  \<open>_empty_rows_sql\<close>: the created rows of the table that have no cell event at all and
  are outside \<open>deleted_rows\<close>.
\<close>

definition empty_rows_sql :: "db \<Rightarrow> nat \<Rightarrow> (string \<times> timestamp) list" where
  "empty_rows_sql d tid =
     remdups
       [(e_row_id ch, e_timestamp ch).
        ch \<leftarrow> cell_history d, e_table_id ch = tid, e_sentinel ch = Some ''__new__'',
        e_row_id ch \<notin> set (map e_row_id (cell_rows d tid)),
        e_row_id ch \<notin> set (deleted_rows d tid)]"

text \<open>
  A row under reconstruction.  The object \<open>cells\<close> is the list of its own properties in
  the order of their creation, together with the fact whether it still inherits from
  \<open>Object.prototype\<close>.
\<close>

record row_acc =
  ra_row_id :: string
  ra_cells :: "(string \<times> string option) list"
  ra_inherits :: bool
  ra_last_modified :: timestamp

text \<open>
  \<open>rowMap\<close>: its own properties in the order of their creation.  The loops of \<open>get_rows\<close>
  create a property only under a name that reads as \<open>undefined\<close>, hence never under a
  name of \<open>proto_names\<close>.
\<close>

type_synonym row_map = "(string \<times> row_acc) list"

text \<open>
  \<open>cells[name] = value\<close>.  Assigning to an own property replaces its value in place,
  assigning to an absent name appends a property (\<open>AList.update\<close>).  As long as the
  object inherits from \<open>Object.prototype\<close>, the name \<open>__proto__\<close> is an inherited
  accessor: assigning \<open>null\<close> to it removes the prototype, assigning a string does
  nothing, and neither creates a property.
\<close>

definition assign_cell :: "string \<Rightarrow> string option \<Rightarrow> row_acc \<Rightarrow> row_acc" where
  "assign_cell name v row =
     (if name = ''__proto__'' \<and> ra_inherits row
      then (if v = None then row\<lparr>ra_inherits := False\<rparr> else row)
      else row\<lparr>ra_cells := AList.update name v (ra_cells row)\<rparr>)"

text \<open>
  The body of the first loop of \<open>get_rows\<close> for a row id under which \<open>rowMap\<close> holds a
  row or nothing.
\<close>

definition put_record :: "recon_record \<Rightarrow> row_map \<Rightarrow> row_map" where
  "put_record rc rm =
     (let rid = rr_row_id rc;
          row0 = (case map_of rm rid of
                    None \<Rightarrow> \<lparr>ra_row_id = rid, ra_cells = [], ra_inherits = True,
                              ra_last_modified = rr_last_modified rc\<rparr>
                  | Some row \<Rightarrow> row);
          row1 = assign_cell (rr_column_name rc) (rr_value rc) row0;
          row2 = (if rr_last_modified rc > ra_last_modified row1
                  then row1\<lparr>ra_last_modified := rr_last_modified rc\<rparr> else row1)
      in AList.update rid row2 rm)"

text \<open>
  The body of the first loop of \<open>get_rows\<close>.  When the row id is a name of
  \<open>proto_names\<close>, \<open>rowMap[rid]\<close> is the inherited member: the test \<open>!rowMap[rid]\<close> fails,
  no row is created, \<open>rowMap[rid].cells\<close> is \<open>undefined\<close> and the assignment to its
  property throws.
\<close>

definition add_record :: "recon_record \<Rightarrow> row_map \<Rightarrow> error + row_map" where
  "add_record rc rm =
     (if rr_row_id rc \<in> set proto_names then Inl TypeError else Inr (put_record rc rm))"

fun add_records :: "recon_record list \<Rightarrow> row_map \<Rightarrow> error + row_map" where
  "add_records [] rm = Inr rm"
| "add_records (rc # rest) rm =
     (case add_record rc rm of
        Inl e \<Rightarrow> Inl e
      | Inr rm' \<Rightarrow> add_records rest rm')"

text \<open>
  The body of the second loop of \<open>get_rows\<close>; under a name of \<open>proto_names\<close> the test
  \<open>!rowMap[record.row_id]\<close> fails and nothing is done.
\<close>

definition add_empty :: "string \<times> timestamp \<Rightarrow> row_map \<Rightarrow> row_map" where
  "add_empty p rm =
     (if fst p \<in> set proto_names then rm
      else case map_of rm (fst p) of
             None \<Rightarrow>
               AList.update (fst p)
                 \<lparr>ra_row_id = fst p, ra_cells = [], ra_inherits = True,
                  ra_last_modified = snd p\<rparr> rm
           | Some row \<Rightarrow> rm)"

text \<open>A row as the caller receives it, the cells in the order of enumeration.\<close>

record row_out =
  row_id :: string
  cells :: "(string \<times> string option) list"
  last_modified :: timestamp

definition finish_row :: "row_acc \<Rightarrow> row_out" where
  "finish_row row =
     \<lparr>row_id = ra_row_id row, cells = own_entries (ra_cells row),
      last_modified = ra_last_modified row\<rparr>"

text \<open>\<open>get_rows\<close>: the two loops, then \<open>Object.values(rowMap)\<close>.\<close>

definition get_rows :: "db \<Rightarrow> nat \<Rightarrow> error + row_out list" where
  "get_rows d tid =
     (case add_records (reconstruction_sql d tid) [] of
        Inl e \<Rightarrow> Inl e
      | Inr rm1 \<Rightarrow>
          Inr (map (\<lambda>p. finish_row (snd p))
                 (own_entries (fold add_empty (empty_rows_sql d tid) rm1))))"

section \<open>Helpers of the worker\<close>

text \<open>JavaScript truthiness of a cell value: \<open>null\<close> and the empty string are falsy.\<close>

definition truthy :: "string option \<Rightarrow> bool" where
  "truthy v \<longleftrightarrow> v \<noteq> None \<and> v \<noteq> Some []"

text \<open>
  \<open>String.prototype.trim\<close> removes white space and line terminators from both ends of a
  string.  Strings are the UTF-8 texts that SQLite stores; \<open>white_space\<close> lists the
  encodings of the code points concerned: U+0009 to U+000D, U+0020, U+00A0, U+1680,
  U+2000 to U+200A, U+2028, U+2029, U+202F, U+205F, U+3000 and U+FEFF.
\<close>

definition white_space :: "string list" where
  "white_space =
     map (\<lambda>c. [c]) [CHR 0x09, CHR 0x0A, CHR 0x0B, CHR 0x0C, CHR 0x0D, CHR 0x20] @
     [[CHR 0xC2, CHR 0xA0], [CHR 0xE1, CHR 0x9A, CHR 0x80]] @
     map (\<lambda>c. [CHR 0xE2, CHR 0x80, c])
       [CHR 0x80, CHR 0x81, CHR 0x82, CHR 0x83, CHR 0x84, CHR 0x85, CHR 0x86, CHR 0x87,
        CHR 0x88, CHR 0x89, CHR 0x8A, CHR 0xA8, CHR 0xA9, CHR 0xAF] @
     [[CHR 0xE2, CHR 0x81, CHR 0x9F], [CHR 0xE3, CHR 0x80, CHR 0x80],
      [CHR 0xEF, CHR 0xBB, CHR 0xBF]]"

text \<open>Removing from the front of \<open>s\<close> every leading occurrence of one of the texts \<open>ws\<close>.\<close>

function strip :: "string list \<Rightarrow> string \<Rightarrow> string" where
  "strip ws s =
     (case find (\<lambda>w. w \<noteq> [] \<and> take (length w) s = w) ws of
        None \<Rightarrow> s
      | Some w \<Rightarrow> strip ws (drop (length w) s))"
  by pat_completeness auto

termination
proof (relation "measure (\<lambda>(ws, s). length s)")
  show "wf (measure (\<lambda>(ws :: string list, s :: string). length s))" by simp
next
  fix ws :: "string list" and s w :: string
  assume "find (\<lambda>w. w \<noteq> [] \<and> take (length w) s = w) ws = Some w"
  then have w: "w \<noteq> []" "take (length w) s = w" by (auto simp: find_Some_iff)
  from w(2) have "length (take (length w) s) = length w" by simp
  then have "length w \<le> length s" by simp
  with w(1) have "length (drop (length w) s) < length s" by (cases w) auto
  then show "((ws, drop (length w) s), (ws, s)) \<in> measure (\<lambda>(ws, s). length s)" by simp
qed

definition trim :: "string \<Rightarrow> string" where
  "trim s = rev (strip (map rev white_space) (rev (strip white_space s)))"

text \<open>
  What reading \<open>colMap[colName]\<close> yields: \<open>undefined\<close>, an entry \<open>{id, is_unique}\<close> made
  from a column, or a value that is no such entry.  Of the latter only the truthiness
  matters; its properties \<open>id\<close> and \<open>is_unique\<close> are \<open>undefined\<close>.
\<close>

datatype col_lookup = Undefined | ColEntry nat int | Inherited bool

text \<open>
  \<open>colMap\<close>: its own properties, and the entry that has become its prototype, if any.
\<close>

record col_map =
  cm_own :: "string \<rightharpoonup> nat \<times> int"
  cm_proto :: "(nat \<times> int) option"

text \<open>
  \<open>_col_map_for_table\<close>: the loop assigns \<open>map[c.name]\<close> for each live column of the
  table in turn, so that a later column of the same name would win.  The assignment
  \<open>map['__proto__'] = entry\<close> creates no property: it makes the entry the prototype of
  the map.
\<close>

definition col_map_for_table :: "db \<Rightarrow> nat \<Rightarrow> col_map" where
  "col_map_for_table d tid =
     (let entries = [(c_name c, (c_id c, c_is_unique c)).
                     c \<leftarrow> columns d, c_table_id c = tid, c_deleted_at c = None]
      in \<lparr>cm_own = map_of (rev (filter (\<lambda>p. fst p \<noteq> ''__proto__'') entries)),
          cm_proto = map_of (rev entries) ''__proto__''\<rparr>)"

text \<open>
  \<open>colMap[name]\<close>.  The name \<open>__proto__\<close> reads the prototype: the entry put there, or
  \<open>Object.prototype\<close>.  Any other name reads the own property if there is one; otherwise
  the property of the prototype entry, whose \<open>id\<close> and \<open>is_unique\<close> are numbers; otherwise
  the member of \<open>Object.prototype\<close>; otherwise \<open>undefined\<close>.
\<close>

definition col_get :: "col_map \<Rightarrow> string \<Rightarrow> col_lookup" where
  "col_get m name =
     (if name = ''__proto__''
      then (case cm_proto m of Some (i, u) \<Rightarrow> ColEntry i u | None \<Rightarrow> Inherited True)
      else case cm_own m name of
             Some (i, u) \<Rightarrow> ColEntry i u
           | None \<Rightarrow>
               (case cm_proto m of
                  Some (i, u) \<Rightarrow>
                    if name = ''id'' then Inherited (i \<noteq> 0)
                    else if name = ''is_unique'' then Inherited (u \<noteq> 0)
                    else if name \<in> set proto_names then Inherited True
                    else Undefined
                | None \<Rightarrow> if name \<in> set proto_names then Inherited True else Undefined))"

text \<open>
  \<open>_get_fk_map_for_table\<close>: column id to target table, over live keys of live columns.
  The keys of this object are decimal numerals, and it is read only at \<open>col.id\<close>: at
  the id of an entry, or at \<open>undefined\<close>, which is no key of it.
\<close>

definition get_fk_map_for_table :: "db \<Rightarrow> nat \<Rightarrow> (nat \<rightharpoonup> nat)" where
  "get_fk_map_for_table d tid =
     map_of (rev [(fk_from_column_id fk, fk_to_table_id fk).
                  fk \<leftarrow> foreign_keys d, c \<leftarrow> columns d, c_id c = fk_from_column_id fk,
                  c_table_id c = tid, fk_deleted_at fk = None, c_deleted_at c = None])"

text \<open>
  \<open>_check_uniqueness\<close>: the rows other than \<open>excluding_row_id\<close>, outside \<open>deleted_rows\<close>,
  whose latest event in the column carries the value.
\<close>

definition check_uniqueness ::
    "db \<Rightarrow> nat \<Rightarrow> nat \<Rightarrow> string \<Rightarrow> string option \<Rightarrow> string \<Rightarrow> error option" where
  "check_uniqueness d tid cid col_name v excluding_row_id =
     (if \<not> truthy v then None
      else if [e_value ch. (r, c, ch) \<leftarrow> latest_join d tid, c = Some cid, e_value ch = v,
                 r \<noteq> excluding_row_id, r \<notin> set (deleted_rows d tid)] \<noteq> []
      then Some (UniqueViolation (case v of Some s \<Rightarrow> s | None \<Rightarrow> []) col_name)
      else None)"

text \<open>
  \<open>_check_fk_exists\<close>: the value must be the id of a created row of the target table
  outside its \<open>deleted_rows\<close>.
\<close>

definition check_fk_exists :: "db \<Rightarrow> nat \<Rightarrow> string option \<Rightarrow> string \<Rightarrow> error option" where
  "check_fk_exists d to_tid v col_name =
     (if \<not> truthy v then None
      else if [e_row_id ch. ch \<leftarrow> cell_history d, e_table_id ch = to_tid,
                 e_sentinel ch = Some ''__new__'', Some (e_row_id ch) = v,
                 e_row_id ch \<notin> set (deleted_rows d to_tid)] = []
      then Some (FkTargetMissing col_name)
      else None)"

text \<open>
  An \<open>INSERT INTO cell_history\<close>: the id is the next \<open>AUTOINCREMENT\<close> value, the
  timestamp is the reading of the clock at that insertion.
\<close>

definition insert_event ::
    "(nat \<Rightarrow> timestamp) \<Rightarrow> nat \<Rightarrow> string \<Rightarrow> nat option \<Rightarrow> string option \<Rightarrow> string option
      \<Rightarrow> db \<Rightarrow> db" where
  "insert_event clock tid rid cid sent v d =
     (let i = Suc (sql_max (map e_id (cell_history d)))
      in d\<lparr>cell_history := cell_history d @
            [\<lparr>e_id = i, e_table_id = tid, e_row_id = rid, e_column_id = cid,
              e_sentinel = sent, e_value = v, e_timestamp = clock i\<rparr>]\<rparr>)"

section \<open>Tables\<close>

text \<open>
  \<open>INSERT INTO tables (name)\<close> under the schema's \<open>name TEXT NOT NULL UNIQUE\<close>: the
  constraint ranges over every stored table, tombstoned or not.
\<close>

definition insert_table :: "timestamp \<Rightarrow> db \<Rightarrow> string \<Rightarrow> error + nat \<times> db" where
  "insert_table now d name =
     (if name \<in> set (map t_name (tables d)) then Inl (SqliteUnique ''tables.name'')
      else let i = Suc (sql_max (map t_id (tables d)))
           in Inr (i, d\<lparr>tables := tables d @
                [\<lparr>t_id = i, t_name = name, t_created_at = now, t_deleted_at = None\<rparr>]\<rparr>))"

definition create_table :: "timestamp \<Rightarrow> db \<Rightarrow> string \<Rightarrow> (nat \<times> string) outcome" where
  "create_table now d name0 =
     (let name = trim name0 in
      if name = [] then (Inl TableNameEmpty, d)
      else if filter (\<lambda>t. t_name t = name \<and> t_deleted_at t = None) (tables d) \<noteq> []
      then (Inl (TableExists name), d)
      else (case insert_table now d name of
              Inl e \<Rightarrow> (Inl e, d)
            | Inr (i, d') \<Rightarrow> (Inr (i, name), d')))"

text \<open>The count of live rows that \<open>delete_table\<close> selects.\<close>

definition live_row_count :: "db \<Rightarrow> nat \<Rightarrow> nat" where
  "live_row_count d tid =
     length (remdups [e_row_id ch. ch \<leftarrow> cell_history d, e_table_id ch = tid,
                        e_sentinel ch = Some ''__new__'',
                        e_row_id ch \<notin> set (deleted_rows d tid)])"

text \<open>The three \<open>UPDATE\<close> statements of \<open>delete_table\<close>.\<close>

definition tombstone_table_fks :: "nat \<Rightarrow> timestamp \<Rightarrow> db \<Rightarrow> db" where
  "tombstone_table_fks tid now d =
     d\<lparr>foreign_keys :=
         map (\<lambda>fk. if fk_deleted_at fk = None \<and>
                      fk_from_column_id fk \<in> set [c_id c. c \<leftarrow> columns d, c_table_id c = tid,
                                                     c_deleted_at c = None]
                   then fk\<lparr>fk_deleted_at := Some now\<rparr> else fk)
             (foreign_keys d)\<rparr>"

definition tombstone_table_columns :: "nat \<Rightarrow> timestamp \<Rightarrow> db \<Rightarrow> db" where
  "tombstone_table_columns tid now d =
     d\<lparr>columns :=
         map (\<lambda>c. if c_table_id c = tid \<and> c_deleted_at c = None
                  then c\<lparr>c_deleted_at := Some now\<rparr> else c)
             (columns d)\<rparr>"

definition tombstone_table :: "nat \<Rightarrow> timestamp \<Rightarrow> db \<Rightarrow> db" where
  "tombstone_table tid now d =
     d\<lparr>tables :=
         map (\<lambda>t. if t_id t = tid \<and> t_deleted_at t = None
                  then t\<lparr>t_deleted_at := Some now\<rparr> else t)
             (tables d)\<rparr>"

text \<open>
  Statements run one after the other, each committed on its own: \<open>delete_table\<close> opens
  no transaction.  \<open>fault = Some k\<close> says that the statement of index \<open>k\<close> throws (leaving
  the database as the statements before it left it); \<open>fault = None\<close> that none does.
\<close>

fun run_writes :: "nat \<Rightarrow> nat option \<Rightarrow> (db \<Rightarrow> db) list \<Rightarrow> db \<Rightarrow> unit outcome" where
  "run_writes k fault [] d = (Inr (), d)"
| "run_writes k fault (w # ws) d =
     (if fault = Some k then (Inl EngineFault, d) else run_writes (Suc k) fault ws (w d))"

definition delete_table :: "nat option \<Rightarrow> (nat \<Rightarrow> timestamp) \<Rightarrow> db \<Rightarrow> nat \<Rightarrow> unit outcome" where
  "delete_table fault now d tid =
     (let cnt = live_row_count d tid in
      if cnt > 0 then (Inl (TableHasLiveRows cnt), d)
      else run_writes 0 fault
             [tombstone_table_fks tid (now 0), tombstone_table_columns tid (now 1),
              tombstone_table tid (now 2)] d)"

section \<open>Columns\<close>

text \<open>\<open>COALESCE(MAX(display_order), -1)\<close>\<close>

fun max_order :: "int list \<Rightarrow> int" where
  "max_order [] = - 1"
| "max_order [x] = x"
| "max_order (x # xs) = max x (max_order xs)"

text \<open>
  \<open>INSERT INTO columns\<close> under the schema's \<open>UNIQUE(table_id, name)\<close>, which ranges over
  every stored column, tombstoned or not.
\<close>

definition insert_column ::
    "timestamp \<Rightarrow> db \<Rightarrow> nat \<Rightarrow> string \<Rightarrow> int \<Rightarrow> int \<Rightarrow> error + nat \<times> db" where
  "insert_column now d tid name display_order is_unique =
     (if (tid, name) \<in> set (map (\<lambda>c. (c_table_id c, c_name c)) (columns d))
      then Inl (SqliteUnique ''columns.table_id, columns.name'')
      else let i = Suc (sql_max (map c_id (columns d)))
           in Inr (i, d\<lparr>columns := columns d @
                [\<lparr>c_id = i, c_table_id = tid, c_name = name, c_display_order = display_order,
                  c_is_unique = is_unique, c_created_at = now, c_deleted_at = None\<rparr>]\<rparr>))"

definition create_column ::
    "timestamp \<Rightarrow> db \<Rightarrow> nat \<Rightarrow> string \<Rightarrow> int \<Rightarrow> (nat \<times> string \<times> int \<times> int) outcome" where
  "create_column now d tid name0 is_unique =
     (let name = trim name0 in
      if name = [] then (Inl ColumnNameEmpty, d)
      else let display_order =
                 max_order [c_display_order c. c \<leftarrow> columns d, c_table_id c = tid,
                            c_deleted_at c = None] + 1
           in (case insert_column now d tid name display_order is_unique of
                 Inl (SqliteUnique m) \<Rightarrow> (Inl (ColumnExists name), d)
               | Inl e \<Rightarrow> (Inl e, d)
               | Inr (i, d') \<Rightarrow> (Inr (i, name, display_order, is_unique), d')))"

text \<open>The duplicate scan of \<open>set_column_unique\<close>: \<open>GROUP BY ch.value HAVING cnt > 1\<close>.\<close>

definition dupes :: "db \<Rightarrow> nat \<Rightarrow> nat \<Rightarrow> string option list" where
  "dupes d tid cid =
     (let vs = [e_value ch. (r, c, ch) \<leftarrow> latest_join d tid, c = Some cid,
                e_value ch \<noteq> None, e_value ch \<noteq> Some [], r \<notin> set (deleted_rows d tid)]
      in filter (\<lambda>v. length (filter (\<lambda>w. w = v) vs) > 1) (remdups vs))"

definition set_column_unique :: "db \<Rightarrow> nat \<Rightarrow> bool \<Rightarrow> (nat \<times> int) outcome" where
  "set_column_unique d cid is_unique =
     (case filter (\<lambda>c. c_id c = cid \<and> c_deleted_at c = None) (columns d) of
        [] \<Rightarrow> (Inl ColumnNotFound, d)
      | col # _ \<Rightarrow>
          if is_unique \<and> dupes d (c_table_id col) cid \<noteq> []
          then (Inl (DuplicateValues (c_name col)), d)
          else (Inr (cid, if is_unique then 1 else 0),
                d\<lparr>columns :=
                    map (\<lambda>c. if c_id c = cid \<and> c_deleted_at c = None
                             then c\<lparr>c_is_unique := (if is_unique then 1 else 0)\<rparr> else c)
                        (columns d)\<rparr>))"

section \<open>Rows\<close>

text \<open>
  The cells of a request are the entries of a JavaScript object as \<open>Object.entries\<close>
  lists them: names with their values, \<open>None\<close> for \<open>null\<close>.
\<close>

type_synonym cells_in = "(string \<times> string option) list"

text \<open>
  The validation loop of \<open>create_row\<close>; the first failing check ends it.  For a value
  of \<open>colMap[colName]\<close> that is no entry, \<open>col.is_unique\<close> and \<open>col.id\<close> are
  \<open>undefined\<close>, and so is \<open>fkMap[col.id]\<close>: neither check runs.
\<close>

fun validate_create ::
    "db \<Rightarrow> nat \<Rightarrow> col_map \<Rightarrow> (nat \<rightharpoonup> nat) \<Rightarrow> string \<Rightarrow> cells_in \<Rightarrow> error option" where
  "validate_create d tid colMap fkMap rid [] = None"
| "validate_create d tid colMap fkMap rid ((colName, v) # rest) =
     (case col_get colMap colName of
        Undefined \<Rightarrow> validate_create d tid colMap fkMap rid rest
      | Inherited t \<Rightarrow> validate_create d tid colMap fkMap rid rest
      | ColEntry cid uniq \<Rightarrow>
          if \<not> truthy v then validate_create d tid colMap fkMap rid rest
          else (case (if uniq \<noteq> 0 then check_uniqueness d tid cid colName v rid else None) of
                  Some e \<Rightarrow> Some e
                | None \<Rightarrow>
                    (case (case fkMap cid of
                             Some to_tid \<Rightarrow> check_fk_exists d to_tid v colName
                           | None \<Rightarrow> None) of
                       Some e \<Rightarrow> Some e
                     | None \<Rightarrow> validate_create d tid colMap fkMap rid rest)))"

text \<open>
  The write loop of \<open>create_row\<close>: one event per truthy value whose name reads as a
  truthy value of \<open>colMap\<close>.  The statement binds \<open>col.id\<close>; a parameter bound to
  \<open>undefined\<close> is left unbound by the driver and reads as \<open>NULL\<close>.
\<close>

definition write_initial ::
    "(nat \<Rightarrow> timestamp) \<Rightarrow> nat \<Rightarrow> col_map \<Rightarrow> string \<Rightarrow> string \<times> string option \<Rightarrow> db \<Rightarrow> db" where
  "write_initial clock tid colMap rid entry d =
     (case col_get colMap (fst entry) of
        Undefined \<Rightarrow> d
      | Inherited t \<Rightarrow>
          if t \<and> truthy (snd entry) then insert_event clock tid rid None None (snd entry) d
          else d
      | ColEntry cid uniq \<Rightarrow>
          if truthy (snd entry) then insert_event clock tid rid (Some cid) None (snd entry) d
          else d)"

text \<open>\<open>create_row\<close>; \<open>rid\<close> is the identifier \<open>crypto.randomUUID()\<close> returns.\<close>

definition create_row ::
    "(nat \<Rightarrow> timestamp) \<Rightarrow> string \<Rightarrow> db \<Rightarrow> nat \<Rightarrow> cells_in \<Rightarrow> string outcome" where
  "create_row clock rid d tid cs =
     (let colMap = col_map_for_table d tid;
          fkMap = get_fk_map_for_table d tid
      in case validate_create d tid colMap fkMap rid cs of
           Some e \<Rightarrow> (Inl e, d)
         | None \<Rightarrow>
             (Inr rid,
              fold (write_initial clock tid colMap rid) cs
                (insert_event clock tid rid None (Some ''__new__'') None d)))"

text \<open>
  The validation loop of \<open>update_row\<close>; only a name that reads as \<open>undefined\<close> is
  skipped.
\<close>

fun validate_update ::
    "db \<Rightarrow> nat \<Rightarrow> col_map \<Rightarrow> (nat \<rightharpoonup> nat) \<Rightarrow> string \<Rightarrow> cells_in \<Rightarrow> error option" where
  "validate_update d tid colMap fkMap rid [] = None"
| "validate_update d tid colMap fkMap rid ((colName, v) # rest) =
     (case col_get colMap colName of
        Undefined \<Rightarrow> validate_update d tid colMap fkMap rid rest
      | Inherited t \<Rightarrow> validate_update d tid colMap fkMap rid rest
      | ColEntry cid uniq \<Rightarrow>
          (case (if truthy v \<and> uniq \<noteq> 0 then check_uniqueness d tid cid colName v rid
                 else None) of
             Some e \<Rightarrow> Some e
           | None \<Rightarrow>
               (case (if truthy v
                      then (case fkMap cid of
                              Some to_tid \<Rightarrow> check_fk_exists d to_tid v colName
                            | None \<Rightarrow> None)
                      else None) of
                  Some e \<Rightarrow> Some e
                | None \<Rightarrow> validate_update d tid colMap fkMap rid rest)))"

text \<open>
  The column id that the \<open>INSERT\<close> of \<open>update_row\<close> stores for a value of
  \<open>colMap[colName]\<close>: \<open>col.id\<close>, and \<open>NULL\<close> where that is \<open>undefined\<close>.
\<close>

definition bound_column :: "col_lookup \<Rightarrow> nat option" where
  "bound_column col = (case col of ColEntry cid uniq \<Rightarrow> Some cid | _ \<Rightarrow> None)"

text \<open>
  The write loop of \<open>update_row\<close>: one event per name that does not read as
  \<open>undefined\<close>, whatever the value; the flag \<open>inserted\<close> is carried along.
\<close>

definition write_update ::
    "(nat \<Rightarrow> timestamp) \<Rightarrow> nat \<Rightarrow> col_map \<Rightarrow> string \<Rightarrow> string \<times> string option
      \<Rightarrow> db \<times> bool \<Rightarrow> db \<times> bool" where
  "write_update clock tid colMap rid entry st =
     (if col_get colMap (fst entry) = Undefined then st
      else (insert_event clock tid rid (bound_column (col_get colMap (fst entry))) None
              (snd entry) (fst st), True))"

definition update_row ::
    "(nat \<Rightarrow> timestamp) \<Rightarrow> db \<Rightarrow> nat \<Rightarrow> string \<Rightarrow> cells_in \<Rightarrow> string outcome" where
  "update_row clock d tid rid cs =
     (let colMap = col_map_for_table d tid;
          fkMap = get_fk_map_for_table d tid
      in case validate_update d tid colMap fkMap rid cs of
           Some e \<Rightarrow> (Inl e, d)
         | None \<Rightarrow>
             (let st = fold (write_update clock tid colMap rid) cs (d, False)
              in if \<not> snd st then (Inl NoValidColumns, fst st) else (Inr rid, fst st)))"

text \<open>
  The inbound foreign keys of \<open>delete_row\<close>: live keys targeting the table, from live
  columns of live tables, with the owning table's id and name.
\<close>

definition inbound :: "db \<Rightarrow> nat \<Rightarrow> (nat \<times> nat \<times> string) list" where
  "inbound d tid =
     [(fk_from_column_id fk, c_table_id c, t_name t).
      fk \<leftarrow> foreign_keys d, c \<leftarrow> columns d, c_id c = fk_from_column_id fk,
      t \<leftarrow> tables d, t_id t = c_table_id c,
      fk_to_table_id fk = tid, fk_deleted_at fk = None, c_deleted_at c = None,
      t_deleted_at t = None]"

text \<open>The number of referencing rows that \<open>delete_row\<close> counts for one inbound key.\<close>

definition ref_count :: "db \<Rightarrow> nat \<Rightarrow> nat \<Rightarrow> string \<Rightarrow> nat" where
  "ref_count d from_tid from_cid rid =
     length [r. (r, c, ch) \<leftarrow> latest_join d from_tid, c = Some from_cid,
             e_value ch = Some rid, r \<notin> set (deleted_rows d from_tid)]"

text \<open>The loop over the inbound keys: the first key with referencing rows throws.\<close>

fun check_inbound :: "db \<Rightarrow> string \<Rightarrow> (nat \<times> nat \<times> string) list \<Rightarrow> error option" where
  "check_inbound d rid [] = None"
| "check_inbound d rid ((from_cid, from_tid, from_name) # rest) =
     (let cnt = ref_count d from_tid from_cid rid
      in if cnt > 0 then Some (RowReferenced cnt from_name) else check_inbound d rid rest)"

definition delete_row :: "(nat \<Rightarrow> timestamp) \<Rightarrow> db \<Rightarrow> nat \<Rightarrow> string \<Rightarrow> unit outcome" where
  "delete_row clock d tid rid =
     (case check_inbound d rid (inbound d tid) of
        Some e \<Rightarrow> (Inl e, d)
      | None \<Rightarrow>
          (Inr (), insert_event clock tid rid None (Some ''__deleted__'') (Some ''1'') d))"

section \<open>Foreign keys\<close>

definition create_foreign_key :: "timestamp \<Rightarrow> db \<Rightarrow> nat \<Rightarrow> nat \<Rightarrow> (nat \<times> nat \<times> nat) outcome" where
  "create_foreign_key now d from_column_id to_table_id =
     (case filter (\<lambda>c. c_id c = from_column_id \<and> c_deleted_at c = None) (columns d) of
        [] \<Rightarrow> (Inl ColumnNotFound, d)
      | fromCol # _ \<Rightarrow>
          if c_table_id fromCol = to_table_id then (Inl SelfReference, d)
          else if filter (\<lambda>t. t_id t = to_table_id \<and> t_deleted_at t = None) (tables d) = []
          then (Inl TargetTableNotFound, d)
          else if filter (\<lambda>fk. fk_from_column_id fk = from_column_id \<and> fk_deleted_at fk = None)
                    (foreign_keys d) \<noteq> []
          then (Inl ColumnHasForeignKey, d)
          else let i = Suc (sql_max (map fk_id (foreign_keys d)))
               in (Inr (i, from_column_id, to_table_id),
                   d\<lparr>foreign_keys := foreign_keys d @
                       [\<lparr>fk_id = i, fk_from_column_id = from_column_id,
                         fk_to_table_id = to_table_id, fk_created_at = now,
                         fk_deleted_at = None\<rparr>]\<rparr>))"

text \<open>\<open>delete_column\<close>: tombstone the column's live foreign keys, then the column.\<close>

definition delete_column :: "(nat \<Rightarrow> timestamp) \<Rightarrow> db \<Rightarrow> nat \<Rightarrow> db" where
  "delete_column now d cid =
     (let d1 = d\<lparr>foreign_keys :=
                   map (\<lambda>fk. if fk_from_column_id fk = cid \<and> fk_deleted_at fk = None
                             then fk\<lparr>fk_deleted_at := Some (now 0)\<rparr> else fk)
                       (foreign_keys d)\<rparr>
      in d1\<lparr>columns :=
              map (\<lambda>c. if c_id c = cid \<and> c_deleted_at c = None
                       then c\<lparr>c_deleted_at := Some (now 1)\<rparr> else c)
                  (columns d1)\<rparr>)"

section \<open>Notions of the specification\<close>

text \<open>
  The lifecycle events of a row that mark it deleted (\<open>v = ''1''\<close>) or restored
  (\<open>v = ''0''\<close>), the greatest id among them (\<open>0\<close> when there is none), and the
  comparison of the two that decides whether the row is net-deleted.
\<close>

definition marks :: "string \<Rightarrow> db \<Rightarrow> nat \<Rightarrow> string \<Rightarrow> cell_event list" where
  "marks v d tid r =
     filter (\<lambda>e. e_table_id e = tid \<and> e_row_id e = r \<and> e_sentinel e = Some ''__deleted__''
                 \<and> e_value e = Some v) (cell_history d)"

definition max_deleted :: "db \<Rightarrow> nat \<Rightarrow> string \<Rightarrow> nat" where
  "max_deleted d tid r = sql_max (map e_id (marks ''1'' d tid r))"

definition max_restored :: "db \<Rightarrow> nat \<Rightarrow> string \<Rightarrow> nat" where
  "max_restored d tid r = sql_max (map e_id (marks ''0'' d tid r))"

definition net_deleted :: "db \<Rightarrow> nat \<Rightarrow> string \<Rightarrow> bool" where
  "net_deleted d tid r \<longleftrightarrow> max_deleted d tid r > max_restored d tid r"

text \<open>The row has a row-created event in the table.\<close>

definition has_created :: "db \<Rightarrow> nat \<Rightarrow> string \<Rightarrow> bool" where
  "has_created d tid r \<longleftrightarrow>
     (\<exists>e\<in>set (cell_history d). e_table_id e = tid \<and> e_row_id e = r \<and>
        e_sentinel e = Some ''__new__'')"

text \<open>
  A live row, as the specification defines it: it has a row-created event and is not
  net-deleted.
\<close>

definition live_row :: "db \<Rightarrow> nat \<Rightarrow> string \<Rightarrow> bool" where
  "live_row d tid r \<longleftrightarrow> has_created d tid r \<and> \<not> net_deleted d tid r"

text \<open>The row has a cell event in the table; it has one for a live column.\<close>

definition has_cell :: "db \<Rightarrow> nat \<Rightarrow> string \<Rightarrow> bool" where
  "has_cell d tid r \<longleftrightarrow> (\<exists>e\<in>set (cell_rows d tid). e_row_id e = r)"

definition has_live_cell :: "db \<Rightarrow> nat \<Rightarrow> string \<Rightarrow> bool" where
  "has_live_cell d tid r \<longleftrightarrow>
     (\<exists>e\<in>set (cell_rows d tid). e_row_id e = r \<and>
        (\<exists>c\<in>set (columns d). e_column_id e = Some (c_id c) \<and> c_deleted_at c = None))"

text \<open>
  The rows that \<open>get_rows\<close> reports, by identifier; none when the call throws.
\<close>

definition row_ids :: "db \<Rightarrow> nat \<Rightarrow> string set" where
  "row_ids d tid = (case get_rows d tid of Inl e \<Rightarrow> {} | Inr rows \<Rightarrow> row_id ` set rows)"

text \<open>
  The non-lifecycle events of a (row, column) pair within a table, and the one among
  them with the greatest id (\<open>None\<close> when the pair has no event).
\<close>

definition group_of :: "db \<Rightarrow> nat \<Rightarrow> string \<Rightarrow> nat option \<Rightarrow> cell_event list" where
  "group_of d tid r cid = filter (\<lambda>e. e_row_id e = r \<and> e_column_id e = cid) (cell_rows d tid)"

definition latest_event :: "db \<Rightarrow> nat \<Rightarrow> string \<Rightarrow> nat \<Rightarrow> cell_event option" where
  "latest_event d tid r cid =
     (let g = group_of d tid r (Some cid) in find (\<lambda>e. e_id e = sql_max (map e_id g)) g)"

text \<open>
  The row currently holds the value in the column: the pair has events, and the one
  with the greatest id carries the value.
\<close>

definition holds :: "db \<Rightarrow> nat \<Rightarrow> string \<Rightarrow> nat \<Rightarrow> string option \<Rightarrow> bool" where
  "holds d tid r cid v \<longleftrightarrow>
     (case latest_event d tid r cid of Some e \<Rightarrow> e_value e = v | None \<Rightarrow> False)"

text \<open>
  The row identifiers that occur in cell events of the table; among them, those that
  are not net-deleted and currently hold the value in the column; among these, the live
  rows.
\<close>

definition cell_row_ids :: "db \<Rightarrow> nat \<Rightarrow> string list" where
  "cell_row_ids d tid = remdups (map e_row_id (cell_rows d tid))"

definition holders :: "db \<Rightarrow> nat \<Rightarrow> nat \<Rightarrow> string option \<Rightarrow> string list" where
  "holders d tid cid v =
     filter (\<lambda>r. \<not> net_deleted d tid r \<and> holds d tid r cid v) (cell_row_ids d tid)"

definition live_holders :: "db \<Rightarrow> nat \<Rightarrow> nat \<Rightarrow> string option \<Rightarrow> string list" where
  "live_holders d tid cid v = filter (has_created d tid) (holders d tid cid v)"

text \<open>
  What the schema enforces on every stored state: the primary keys, and the \<open>UNIQUE\<close>
  constraints on table names and on (table, column name).
\<close>

definition schema_ok :: "db \<Rightarrow> bool" where
  "schema_ok d \<longleftrightarrow>
     distinct (map t_id (tables d)) \<and> distinct (map t_name (tables d)) \<and>
     distinct (map c_id (columns d)) \<and>
     distinct (map (\<lambda>c. (c_table_id c, c_name c)) (columns d)) \<and>
     distinct (map e_id (cell_history d)) \<and>
     distinct (map fk_id (foreign_keys d))"

text \<open>
  Cell events carry a column of their own table: \<open>create_row\<close> and \<open>update_row\<close> take
  the column ids they write from the column map of the table they write to.
\<close>

definition events_scoped :: "db \<Rightarrow> bool" where
  "events_scoped d \<longleftrightarrow>
     (\<forall>e\<in>set (cell_history d). \<forall>c\<in>set (columns d).
        e_column_id e = Some (c_id c) \<longrightarrow> c_table_id c = e_table_id e)"

text \<open>
  No event of the table bears a name of a member of \<open>Object.prototype\<close> as its row id.
  Row ids made by \<open>create_row\<close> are UUIDs; \<open>update_row\<close> and \<open>delete_row\<close> write
  whatever id the request carries.
\<close>

definition plain_row_ids :: "db \<Rightarrow> nat \<Rightarrow> bool" where
  "plain_row_ids d tid \<longleftrightarrow>
     (\<forall>e\<in>set (cell_history d). e_table_id e = tid \<longrightarrow> e_row_id e \<notin> set proto_names)"

text \<open>The row map that \<open>get_rows\<close> builds when no row id makes it throw.\<close>

definition row_map_of :: "db \<Rightarrow> nat \<Rightarrow> row_map" where
  "row_map_of d tid =
     fold add_empty (empty_rows_sql d tid) (fold put_record (reconstruction_sql d tid) [])"

text \<open>The invariant of the two loops of \<open>get_rows\<close>.\<close>

definition rm_ok :: "row_map \<Rightarrow> bool" where
  "rm_ok rm \<longleftrightarrow>
     distinct (map fst rm) \<and>
     (\<forall>(k, row)\<in>set rm. ra_row_id row = k \<and> distinct (map fst (ra_cells row)))"

section \<open>A sample database\<close>

text \<open>
  Two tables, \<open>Tasks\<close> (id 1) and \<open>People\<close> (id 2).  \<open>Tasks\<close> has the unique column
  \<open>Title\<close>, the column \<open>Owner\<close> with a foreign key to \<open>People\<close>, and the tombstoned
  column \<open>Old\<close>; \<open>People\<close> has the column \<open>Name\<close>.  Row \<open>r1\<close> is an ordinary task
  owned by \<open>p1\<close>; row \<open>r2\<close> was created and only ever written in the column \<open>Old\<close>,
  which was deleted afterwards; row \<open>r3\<close> was created and deleted; the identifier
  \<open>r9\<close> was never created and received a title through \<open>update_row\<close>.
\<close>

definition mk_event ::
    "nat \<Rightarrow> nat \<Rightarrow> string \<Rightarrow> nat option \<Rightarrow> string option \<Rightarrow> string option \<Rightarrow> cell_event" where
  "mk_event i tid r cid sent v =
     \<lparr>e_id = i, e_table_id = tid, e_row_id = r, e_column_id = cid, e_sentinel = sent,
      e_value = v, e_timestamp = ''2024-05-01T10:00:00.000''\<rparr>"

definition mk_column :: "nat \<Rightarrow> nat \<Rightarrow> string \<Rightarrow> int \<Rightarrow> int \<Rightarrow> timestamp option \<Rightarrow> column_rec" where
  "mk_column i tid name ord uniq del =
     \<lparr>c_id = i, c_table_id = tid, c_name = name, c_display_order = ord, c_is_unique = uniq,
      c_created_at = ''2024-05-01T09:00:00.000'', c_deleted_at = del\<rparr>"

definition sample_db :: db where
  "sample_db =
     \<lparr>tables =
        [\<lparr>t_id = 1, t_name = ''Tasks'', t_created_at = ''2024-05-01T09:00:00.000'',
          t_deleted_at = None\<rparr>,
         \<lparr>t_id = 2, t_name = ''People'', t_created_at = ''2024-05-01T09:00:00.000'',
          t_deleted_at = None\<rparr>],
      columns =
        [mk_column 1 1 ''Title'' 0 1 None,
         mk_column 2 1 ''Owner'' 1 0 None,
         mk_column 3 2 ''Name'' 0 0 None,
         mk_column 4 1 ''Old'' 2 0 (Some ''2024-05-01T11:00:00.000'')],
      cell_history =
        [mk_event 1 2 ''p1'' None (Some ''__new__'') None,
         mk_event 2 2 ''p1'' (Some 3) None (Some ''Ann''),
         mk_event 3 1 ''r1'' None (Some ''__new__'') None,
         mk_event 4 1 ''r1'' (Some 1) None (Some ''Buy milk''),
         mk_event 5 1 ''r1'' (Some 2) None (Some ''p1''),
         mk_event 6 1 ''r2'' None (Some ''__new__'') None,
         mk_event 7 1 ''r2'' (Some 4) None (Some ''x''),
         mk_event 8 1 ''r9'' (Some 1) None (Some ''Stray''),
         mk_event 9 1 ''r3'' None (Some ''__new__'') None,
         mk_event 10 1 ''r3'' None (Some ''__deleted__'') (Some ''1''),
         mk_event 11 1 ''r1'' (Some 1) None (Some ''Buy eggs'')],
      foreign_keys =
        [\<lparr>fk_id = 1, fk_from_column_id = 2, fk_to_table_id = 2,
          fk_created_at = ''2024-05-01T09:30:00.000'', fk_deleted_at = None\<rparr>]\<rparr>"

text \<open>The database right after \<open>_create_fresh_schema\<close>.\<close>

definition empty_db :: db where
  "empty_db = \<lparr>tables = [], columns = [], cell_history = [], foreign_keys = []\<rparr>"

text \<open>A constant clock, for runs in which the timestamps do not matter.\<close>

definition noon :: "nat \<Rightarrow> timestamp" where
  "noon k = ''2024-05-01T12:00:00.000''"

text \<open>
  A table \<open>Tasks\<close> is created and deleted again, then a table \<open>Notes\<close> is created,
  given a column \<open>Title\<close>, and the column is deleted.
\<close>

definition reuse_db :: db where
  "reuse_db =
     (let d1 = snd (create_table (noon 0) empty_db ''Tasks'');
          d2 = snd (delete_table None noon d1 1);
          d3 = snd (create_table (noon 0) d2 ''Notes'');
          d4 = snd (create_column (noon 0) d3 2 ''Title'' 0)
      in delete_column noon d4 1)"

text \<open>
  Two tables without rows; the column \<open>Owner\<close> of \<open>Tasks\<close> carries a foreign key to
  \<open>People\<close>.
\<close>

definition cascade_db :: db where
  "cascade_db =
     \<lparr>tables =
        [\<lparr>t_id = 1, t_name = ''Tasks'', t_created_at = ''2024-05-01T09:00:00.000'',
          t_deleted_at = None\<rparr>,
         \<lparr>t_id = 2, t_name = ''People'', t_created_at = ''2024-05-01T09:00:00.000'',
          t_deleted_at = None\<rparr>],
      columns = [mk_column 1 1 ''Owner'' 0 0 None],
      cell_history = [],
      foreign_keys =
        [\<lparr>fk_id = 1, fk_from_column_id = 1, fk_to_table_id = 2,
          fk_created_at = ''2024-05-01T09:30:00.000'', fk_deleted_at = None\<rparr>]\<rparr>"

text \<open>A column, a table exists live; the live foreign keys of a column.\<close>

definition col_live :: "db \<Rightarrow> nat \<Rightarrow> bool" where
  "col_live d cid \<longleftrightarrow> (\<exists>c\<in>set (columns d). c_id c = cid \<and> c_deleted_at c = None)"

definition table_live :: "db \<Rightarrow> nat \<Rightarrow> bool" where
  "table_live d tid \<longleftrightarrow> (\<exists>t\<in>set (tables d). t_id t = tid \<and> t_deleted_at t = None)"

definition live_fks :: "db \<Rightarrow> nat \<Rightarrow> foreign_key list" where
  "live_fks d cid =
     filter (\<lambda>fk. fk_from_column_id fk = cid \<and> fk_deleted_at fk = None) (foreign_keys d)"

text \<open>No column holds two live foreign keys.\<close>

definition one_fk_per_column :: "db \<Rightarrow> bool" where
  "one_fk_per_column d \<longleftrightarrow>
     (\<forall>fk\<in>set (foreign_keys d). length (live_fks d (fk_from_column_id fk)) \<le> 1)"

text \<open>The live column of the given id belongs to the given table.\<close>

definition col_in_table :: "db \<Rightarrow> nat \<Rightarrow> nat \<Rightarrow> bool" where
  "col_in_table d cid tid \<longleftrightarrow>
     (\<exists>c\<in>set (columns d). c_id c = cid \<and> c_deleted_at c = None \<and> c_table_id c = tid)"

text \<open>The record \<open>create_foreign_key\<close> inserts.\<close>

definition new_fk :: "timestamp \<Rightarrow> db \<Rightarrow> nat \<Rightarrow> nat \<Rightarrow> foreign_key" where
  "new_fk now d from_column_id to_table_id =
     \<lparr>fk_id = Suc (sql_max (map fk_id (foreign_keys d))), fk_from_column_id = from_column_id,
      fk_to_table_id = to_table_id, fk_created_at = now, fk_deleted_at = None\<rparr>"

text \<open>The supplied cells whose name is that of a live column of the table.\<close>

definition recognised :: "db \<Rightarrow> nat \<Rightarrow> cells_in \<Rightarrow> cells_in" where
  "recognised d tid cs =
     filter (\<lambda>(n, v). \<exists>c\<in>set (columns d). c_table_id c = tid \<and> c_deleted_at c = None \<and>
                        c_name c = n) cs"

text \<open>The test \<open>col === undefined\<close> of the two loops of \<open>update_row\<close>, negated.\<close>

definition accepted :: "col_map \<Rightarrow> string \<times> string option \<Rightarrow> bool" where
  "accepted cm x \<longleftrightarrow> col_get cm (fst x) \<noteq> Undefined"

text \<open>
  One cell event per given cell, in the order of the request, with consecutive ids from
  \<open>i\<close> on, carrying the supplied value (\<open>None\<close> for a clear).
\<close>

definition cell_events_from ::
    "(nat \<Rightarrow> timestamp) \<Rightarrow> col_map \<Rightarrow> nat \<Rightarrow> string \<Rightarrow> nat \<Rightarrow> cells_in \<Rightarrow> cell_event list" where
  "cell_events_from clock colMap tid rid i xs =
     map (\<lambda>(k, (n, v)).
            \<lparr>e_id = k, e_table_id = tid, e_row_id = rid,
             e_column_id = bound_column (col_get colMap n), e_sentinel = None, e_value = v,
             e_timestamp = clock k\<rparr>)
         (enumerate i xs)"

text \<open>The events of a successful \<open>update_row\<close>: one per cell that the loops do not skip.\<close>

definition update_events ::
    "(nat \<Rightarrow> timestamp) \<Rightarrow> db \<Rightarrow> nat \<Rightarrow> string \<Rightarrow> cells_in \<Rightarrow> cell_event list" where
  "update_events clock d tid rid cs =
     cell_events_from clock (col_map_for_table d tid) tid rid
       (Suc (sql_max (map e_id (cell_history d))))
       (filter (accepted (col_map_for_table d tid)) cs)"

text \<open>
  \<open>get_rows\<close> returns and reports the row with the given value (\<open>None\<close> for \<open>null\<close>)
  in the cell of the given column.
\<close>

definition reports :: "db \<Rightarrow> nat \<Rightarrow> string \<Rightarrow> column_rec \<Rightarrow> string option \<Rightarrow> bool" where
  "reports d tid r c v \<longleftrightarrow>
     (case get_rows d tid of
        Inl e \<Rightarrow> False
      | Inr rows \<Rightarrow>
          (\<exists>row\<in>set rows. row_id row = r \<and> map_of (cells row) (c_name c) = Some v))"

text \<open>The rows of \<open>latest_join\<close> for one column that satisfy a condition on row and event.\<close>

definition join_rows ::
    "db \<Rightarrow> nat \<Rightarrow> nat \<Rightarrow> (string \<Rightarrow> cell_event \<Rightarrow> bool) \<Rightarrow> (string \<times> nat option \<times> cell_event) list" where
  "join_rows d tid cid P =
     filter (\<lambda>(r, c, ch). c = Some cid \<and> P r ch \<and> r \<notin> set (deleted_rows d tid))
       (latest_join d tid)"

text \<open>The lifecycle event that \<open>delete_row\<close> appends.\<close>

definition deleted_event :: "(nat \<Rightarrow> timestamp) \<Rightarrow> db \<Rightarrow> nat \<Rightarrow> string \<Rightarrow> cell_event" where
  "deleted_event clock d tid rid =
     \<lparr>e_id = Suc (sql_max (map e_id (cell_history d))), e_table_id = tid, e_row_id = rid,
      e_column_id = None, e_sentinel = Some ''__deleted__'', e_value = Some ''1'',
      e_timestamp = clock (Suc (sql_max (map e_id (cell_history d))))\<rparr>"

text \<open>
  A live foreign key that targets the table, anchored on a live column of another, live
  table.
\<close>

definition inbound_key :: "db \<Rightarrow> nat \<Rightarrow> foreign_key \<Rightarrow> column_rec \<Rightarrow> table_rec \<Rightarrow> bool" where
  "inbound_key d tid fk c t \<longleftrightarrow>
     fk_to_table_id fk = tid \<and> fk_deleted_at fk = None \<and>
     c_id c = fk_from_column_id fk \<and> c_deleted_at c = None \<and>
     t_id t = c_table_id c \<and> t_deleted_at t = None \<and> c_table_id c \<noteq> tid"

text \<open>
  Some live row of another table currently holds the id in a column bearing such a key.
\<close>

definition referenced :: "db \<Rightarrow> nat \<Rightarrow> string \<Rightarrow> bool" where
  "referenced d tid rid \<longleftrightarrow>
     (\<exists>fk\<in>set (foreign_keys d). \<exists>c\<in>set (columns d). \<exists>t\<in>set (tables d).
        inbound_key d tid fk c t \<and> live_holders d (c_table_id c) (c_id c) (Some rid) \<noteq> [])"

text \<open>
  The same of a row that is not net-deleted, whether or not it has a row-created event.
\<close>

definition referenced_undeleted :: "db \<Rightarrow> nat \<Rightarrow> string \<Rightarrow> bool" where
  "referenced_undeleted d tid rid \<longleftrightarrow>
     (\<exists>fk\<in>set (foreign_keys d). \<exists>c\<in>set (columns d). \<exists>t\<in>set (tables d).
        inbound_key d tid fk c t \<and> holders d (c_table_id c) (c_id c) (Some rid) \<noteq> [])"

text \<open>No live foreign key targets the table of its own column (see \<open>create_foreign_key\<close>).\<close>

definition no_self_fk :: "db \<Rightarrow> bool" where
  "no_self_fk d \<longleftrightarrow>
     (\<forall>fk\<in>set (foreign_keys d). \<forall>c\<in>set (columns d).
        fk_deleted_at fk = None \<and> c_id c = fk_from_column_id fk \<longrightarrow>
        c_table_id c \<noteq> fk_to_table_id fk)"

text \<open>
  Some non-empty value is currently held in the column by more than one live row; by
  more than one row that is not net-deleted.
\<close>

definition duplicate_rows :: "db \<Rightarrow> column_rec \<Rightarrow> bool" where
  "duplicate_rows d c \<longleftrightarrow>
     (\<exists>e\<in>set (cell_rows d (c_table_id c)).
        truthy (e_value e) \<and> 1 < length (live_holders d (c_table_id c) (c_id c) (e_value e)))"

definition duplicate_undeleted :: "db \<Rightarrow> column_rec \<Rightarrow> bool" where
  "duplicate_undeleted d c \<longleftrightarrow>
     (\<exists>e\<in>set (cell_rows d (c_table_id c)).
        truthy (e_value e) \<and> 1 < length (holders d (c_table_id c) (c_id c) (e_value e)))"

text \<open>The \<open>UPDATE columns SET is_unique = ?\<close> of \<open>set_column_unique\<close>.\<close>

definition with_unique_flag :: "db \<Rightarrow> nat \<Rightarrow> int \<Rightarrow> db" where
  "with_unique_flag d cid u =
     d\<lparr>columns := map (\<lambda>c. if c_id c = cid \<and> c_deleted_at c = None
                            then c\<lparr>c_is_unique := u\<rparr> else c) (columns d)\<rparr>"

text \<open>
  The supplied values pass validation, as the specification describes it: a non-empty
  value for a unique live column of the table is held by no live row other than \<open>rid\<close>,
  and a non-empty value for a live column bearing a live foreign key is the id of a live
  row of the target table.
\<close>

definition values_valid :: "db \<Rightarrow> nat \<Rightarrow> string \<Rightarrow> cells_in \<Rightarrow> bool" where
  "values_valid d tid rid cs \<longleftrightarrow>
     (\<forall>(n, v)\<in>set cs. \<forall>c\<in>set (columns d).
        c_table_id c = tid \<and> c_deleted_at c = None \<and> c_name c = n \<and> truthy v \<longrightarrow>
        (c_is_unique c \<noteq> 0 \<longrightarrow>
           filter (\<lambda>r. r \<noteq> rid) (live_holders d tid (c_id c) v) = []) \<and>
        (\<forall>fk\<in>set (foreign_keys d).
           fk_deleted_at fk = None \<and> fk_from_column_id fk = c_id c \<longrightarrow>
           (case v of Some s \<Rightarrow> live_row d (fk_to_table_id fk) s | None \<Rightarrow> False)))"

text \<open>
  The same, with the unique value held by no other row that is not net-deleted, whether
  or not that row has a row-created event.
\<close>

definition values_clear :: "db \<Rightarrow> nat \<Rightarrow> string \<Rightarrow> cells_in \<Rightarrow> bool" where
  "values_clear d tid rid cs \<longleftrightarrow>
     (\<forall>(n, v)\<in>set cs. \<forall>c\<in>set (columns d).
        c_table_id c = tid \<and> c_deleted_at c = None \<and> c_name c = n \<and> truthy v \<longrightarrow>
        (c_is_unique c \<noteq> 0 \<longrightarrow>
           filter (\<lambda>r. r \<noteq> rid) (holders d tid (c_id c) v) = []) \<and>
        (\<forall>fk\<in>set (foreign_keys d).
           fk_deleted_at fk = None \<and> fk_from_column_id fk = c_id c \<longrightarrow>
           (case v of Some s \<Rightarrow> live_row d (fk_to_table_id fk) s | None \<Rightarrow> False)))"

text \<open>
  The sample database after \<open>update_row\<close> has given the identifier \<open>r9\<close> the owner
  \<open>p1\<close>, which \<open>r1\<close> has as well; and after \<open>r1\<close> has then given up its owner, so that
  \<open>p1\<close> is held by \<open>r9\<close> alone.
\<close>

definition shared_owner_db :: db where
  "shared_owner_db = snd (update_row noon sample_db 1 ''r9'' [(''Owner'', Some ''p1'')])"

definition stray_owner_db :: db where
  "stray_owner_db = snd (update_row noon shared_owner_db 1 ''r1'' [(''Owner'', None)])"

text \<open>
  The sample database after \<open>update_row\<close> has written a title under the row id
  \<open>constructor\<close>.
\<close>

definition constructor_db :: db where
  "constructor_db =
     snd (update_row noon sample_db 1 ''constructor'' [(''Title'', Some ''Call Bob'')])"

text \<open>
  The sample database after \<open>Tasks\<close> has received a column named \<open>__proto__\<close>, and the
  row \<open>r1\<close> a value in it.
\<close>

definition proto_column_db :: db where
  "proto_column_db =
     (let d1 = snd (create_column (noon 0) sample_db 1 ''__proto__'' 0)
      in snd (update_row noon d1 1 ''r1'' [(''__proto__'', Some ''v'')]))"

text \<open>
  The sample database after \<open>create_row\<close> has made a second task owned by \<open>p1\<close>.
\<close>

definition twin_owner_db :: db where
  "twin_owner_db = snd (create_row noon ''r5'' sample_db 1 [(''Owner'', Some ''p1'')])"

text \<open>
  The supplied names are plain: none is the name of a member of \<open>Object.prototype\<close> or
  of a property of the entries of \<open>colMap\<close>.
\<close>

definition plain_names :: "cells_in \<Rightarrow> bool" where
  "plain_names cs \<longleftrightarrow>
     (\<forall>x\<in>set cs. fst x \<notin> set proto_names \<and> fst x \<noteq> ''id'' \<and> fst x \<noteq> ''is_unique'')"

section \<open>Auxiliary facts\<close>

lemma sql_max_ge: "x \<in> set xs \<Longrightarrow> x \<le> sql_max xs"
  by (induction xs) auto

lemma sql_max_mem: "xs \<noteq> [] \<Longrightarrow> sql_max xs \<in> set xs"
proof (induction xs)
  case Nil
  then show ?case by simp
next
  case (Cons a xs)
  then show ?case by (cases xs) (auto simp: max_def)
qed

lemma max_case_filter:
  "max_case v g = sql_max (map e_id (filter (\<lambda>e. e_value e = Some v) g))"
  unfolding max_case_def by (induction g) auto

lemma sql_max_Nil_iff: "sql_max xs = 0 \<longleftrightarrow> (\<forall>x\<in>set xs. x = 0)"
  by (induction xs) (auto simp: max_def)

lemma marks_eq:
  "marks v d tid r = filter (\<lambda>e. e_value e = Some v) (filter (\<lambda>e. e_row_id e = r) (lifecycle_rows d tid))"
  unfolding marks_def lifecycle_rows_def by (auto intro: filter_cong)

lemma deleted_rows_iff: "r \<in> set (deleted_rows d tid) \<longleftrightarrow> net_deleted d tid r"
proof -
  let ?g = "filter (\<lambda>e. e_row_id e = r) (lifecycle_rows d tid)"
  have eq: "max_case ''1'' ?g > max_case ''0'' ?g \<longleftrightarrow> net_deleted d tid r"
    by (simp add: net_deleted_def max_deleted_def max_restored_def marks_eq max_case_filter)
  have "net_deleted d tid r \<Longrightarrow> r \<in> e_row_id ` set (lifecycle_rows d tid)"
  proof -
    assume nd: "net_deleted d tid r"
    have "marks ''1'' d tid r \<noteq> []"
    proof
      assume "marks ''1'' d tid r = []"
      then have "max_deleted d tid r = 0" by (simp add: max_deleted_def)
      with nd show False by (simp add: net_deleted_def)
    qed
    then obtain e where "e \<in> set (marks ''1'' d tid r)" by (cases "marks ''1'' d tid r") auto
    then have "e \<in> set (lifecycle_rows d tid)" "e_row_id e = r" by (auto simp: marks_eq)
    then show ?thesis by auto
  qed
  with eq show ?thesis by (auto simp: deleted_rows_def Let_def)
qed

lemma latest_iff:
  "(r, cid, mx) \<in> set (latest d tid) \<longleftrightarrow>
     group_of d tid r cid \<noteq> [] \<and> mx = sql_max (map e_id (group_of d tid r cid))"
  by (auto simp: latest_def Let_def group_of_def filter_empty_conv)

lemma group_max_event:
  assumes "group_of d tid r cid \<noteq> []"
  shows "\<exists>ch\<in>set (group_of d tid r cid). e_id ch = sql_max (map e_id (group_of d tid r cid))"
proof -
  from assms have "map e_id (group_of d tid r cid) \<noteq> []" by simp
  from sql_max_mem [OF this] show ?thesis by auto
qed

lemma group_of_subset: "e \<in> set (group_of d tid r cid) \<Longrightarrow>
   e \<in> set (cell_history d) \<and> e_table_id e = tid \<and> e_sentinel e = None \<and> e_row_id e = r \<and> e_column_id e = cid"
  by (auto simp: group_of_def cell_rows_def)

lemma latest_join_iff:
  "(r, cid, ch) \<in> set (latest_join d tid) \<longleftrightarrow>
     group_of d tid r cid \<noteq> [] \<and> ch \<in> set (cell_history d) \<and>
     e_id ch = sql_max (map e_id (group_of d tid r cid))"
  unfolding latest_join_def by (fastforce simp: latest_iff)

lemma recon_iff:
  "rc \<in> set (reconstruction_sql d tid) \<longleftrightarrow>
     (\<exists>r c ch. group_of d tid r (Some (c_id c)) \<noteq> [] \<and> ch \<in> set (cell_history d) \<and>
        e_id ch = sql_max (map e_id (group_of d tid r (Some (c_id c)))) \<and>
        c \<in> set (columns d) \<and> c_deleted_at c = None \<and> \<not> net_deleted d tid r \<and>
        rc = recon_row r c ch)"
  unfolding reconstruction_sql_def
  by (fastforce simp: latest_join_iff deleted_rows_iff)

lemma recon_rows:
  "r \<in> rr_row_id ` set (reconstruction_sql d tid) \<longleftrightarrow> has_live_cell d tid r \<and> \<not> net_deleted d tid r"
proof
  assume "r \<in> rr_row_id ` set (reconstruction_sql d tid)"
  then obtain rc where rc: "rc \<in> set (reconstruction_sql d tid)" "rr_row_id rc = r" by auto
  from rc(1) obtain r' c ch where h: "group_of d tid r' (Some (c_id c)) \<noteq> []"
      "c \<in> set (columns d)" "c_deleted_at c = None" "\<not> net_deleted d tid r'"
      "rc = recon_row r' c ch"
    unfolding recon_iff by blast
  from h(5) rc(2) have [simp]: "r' = r" by (simp add: recon_row_def)
  from h(1) obtain e where "e \<in> set (group_of d tid r (Some (c_id c)))"
    by (cases "group_of d tid r (Some (c_id c))") auto
  then have "e \<in> set (cell_rows d tid)" "e_row_id e = r" "e_column_id e = Some (c_id c)"
    by (auto simp: group_of_def)
  with h(2,3) have "has_live_cell d tid r" unfolding has_live_cell_def by blast
  with h(4) show "has_live_cell d tid r \<and> \<not> net_deleted d tid r" by simp
next
  assume a: "has_live_cell d tid r \<and> \<not> net_deleted d tid r"
  then obtain e c where ec: "e \<in> set (cell_rows d tid)" "e_row_id e = r" "c \<in> set (columns d)"
      "e_column_id e = Some (c_id c)" "c_deleted_at c = None"
    unfolding has_live_cell_def by blast
  then have ne: "group_of d tid r (Some (c_id c)) \<noteq> []"
    by (auto simp: group_of_def filter_empty_conv)
  from group_max_event [OF ne] obtain ch where ch: "ch \<in> set (group_of d tid r (Some (c_id c)))"
     "e_id ch = sql_max (map e_id (group_of d tid r (Some (c_id c))))" by blast
  from ch(1) have "ch \<in> set (cell_history d)" by (simp add: group_of_subset)
  with ne ch(2) ec(3,5) a
  have "recon_row r c ch \<in> set (reconstruction_sql d tid)"
    unfolding recon_iff by blast
  then show "r \<in> rr_row_id ` set (reconstruction_sql d tid)" by (force simp: recon_row_def)
qed

lemma empty_rows_mem: "p \<in> set (empty_rows_sql d tid) \<longleftrightarrow>
   (\<exists>ch\<in>set (cell_history d). p = (e_row_id ch, e_timestamp ch) \<and> e_table_id ch = tid \<and>
      e_sentinel ch = Some ''__new__'' \<and> \<not> has_cell d tid (e_row_id ch) \<and> \<not> net_deleted d tid (e_row_id ch))"
  unfolding empty_rows_sql_def has_cell_def by (fastforce simp: deleted_rows_iff image_iff)

lemma empty_rows_iff:
  "r \<in> fst ` set (empty_rows_sql d tid) \<longleftrightarrow>
     has_created d tid r \<and> \<not> has_cell d tid r \<and> \<not> net_deleted d tid r"
proof
  assume "r \<in> fst ` set (empty_rows_sql d tid)"
  then obtain t where "(r, t) \<in> set (empty_rows_sql d tid)" by auto
  then show "has_created d tid r \<and> \<not> has_cell d tid r \<and> \<not> net_deleted d tid r"
    unfolding empty_rows_mem has_created_def by auto
next
  assume a: "has_created d tid r \<and> \<not> has_cell d tid r \<and> \<not> net_deleted d tid r"
  then obtain ch where "ch \<in> set (cell_history d)" "e_table_id ch = tid" "e_row_id ch = r"
     "e_sentinel ch = Some ''__new__''" unfolding has_created_def by blast
  with a have "(r, e_timestamp ch) \<in> set (empty_rows_sql d tid)"
    unfolding empty_rows_mem by blast
  then show "r \<in> fst ` set (empty_rows_sql d tid)" by force
qed

lemma set_update_subset:
  "(k', v') \<in> set (AList.update k v al) \<Longrightarrow> (k', v') \<in> set al \<or> (k' = k \<and> v' = v)"
  by (induction al) (auto split: if_splits)

lemma own_entries_set: "set (own_entries al) = set al"
  by (auto simp: own_entries_def)

lemma assign_cell_row_id: "ra_row_id (assign_cell n v row) = ra_row_id row"
  by (simp add: assign_cell_def)

lemma assign_cell_distinct:
  "distinct (map fst (ra_cells row)) \<Longrightarrow> distinct (map fst (ra_cells (assign_cell n v row)))"
  by (simp add: assign_cell_def distinct_update)

lemma put_record_ok: "rm_ok rm \<Longrightarrow> rm_ok (put_record rc rm)"
proof -
  assume ok: "rm_ok rm"
  have key: "\<And>row. map_of rm (rr_row_id rc) = Some row \<Longrightarrow>
      ra_row_id row = rr_row_id rc \<and> distinct (map fst (ra_cells row))"
    using ok by (auto simp: rm_ok_def dest!: map_of_SomeD)
  show ?thesis
    using ok unfolding rm_ok_def put_record_def Let_def
    by (auto simp: distinct_update assign_cell_row_id assign_cell_distinct
        dest!: set_update_subset key split: option.splits)
qed

lemma add_empty_ok: "rm_ok rm \<Longrightarrow> rm_ok (add_empty p rm)"
  unfolding rm_ok_def add_empty_def
  by (auto simp: distinct_update dest!: set_update_subset split: option.splits)

lemma fold_put_record_ok: "rm_ok rm \<Longrightarrow> rm_ok (fold put_record recs rm)"
  by (induction recs arbitrary: rm) (auto simp: put_record_ok)

lemma fold_add_empty_ok: "rm_ok rm \<Longrightarrow> rm_ok (fold add_empty ps rm)"
  by (induction ps arbitrary: rm) (auto simp: add_empty_ok)

lemma keys_put_record: "fst ` set (put_record rc rm) = insert (rr_row_id rc) (fst ` set rm)"
  by (simp add: put_record_def Let_def dom_update)

lemma keys_add_empty:
  "fst ` set (add_empty p rm) =
     (if fst p \<in> set proto_names then fst ` set rm else insert (fst p) (fst ` set rm))"
  by (auto simp: add_empty_def dom_update map_of_eq_None_iff split: option.splits dest: map_of_SomeD
      intro: rev_image_eqI)

lemma keys_fold_put_record:
  "fst ` set (fold put_record recs rm) = fst ` set rm \<union> rr_row_id ` set recs"
  by (induction recs arbitrary: rm) (auto simp: keys_put_record)

lemma keys_fold_add_empty:
  "fst ` set (fold add_empty ps rm) =
     fst ` set rm \<union> {k \<in> fst ` set ps. k \<notin> set proto_names}"
  by (induction ps arbitrary: rm) (auto simp: keys_add_empty)

lemma add_records_plain:
  "\<forall>rc\<in>set recs. rr_row_id rc \<notin> set proto_names \<Longrightarrow>
   add_records recs rm = Inr (fold put_record recs rm)"
  by (induction recs arbitrary: rm) (auto simp: add_record_def)

lemma add_records_throws:
  "\<exists>rc\<in>set recs. rr_row_id rc \<in> set proto_names \<Longrightarrow> add_records recs rm = Inl TypeError"
proof (induction recs arbitrary: rm)
  case Nil
  then show ?case by simp
next
  case (Cons rc recs)
  show ?case
  proof (cases "rr_row_id rc \<in> set proto_names")
    case True
    then show ?thesis by (simp add: add_record_def)
  next
    case False
    with Cons.prems have "\<exists>rc\<in>set recs. rr_row_id rc \<in> set proto_names" by auto
    from Cons.IH [OF this] False show ?thesis by (simp add: add_record_def)
  qed
qed

lemma get_rows_throws_iff:
  "get_rows d tid = Inl TypeError \<longleftrightarrow>
     (\<exists>rc\<in>set (reconstruction_sql d tid). rr_row_id rc \<in> set proto_names)"
proof (cases "\<exists>rc\<in>set (reconstruction_sql d tid). rr_row_id rc \<in> set proto_names")
  case True
  from add_records_throws [OF True] True show ?thesis by (simp add: get_rows_def)
next
  case False
  then have "\<forall>rc\<in>set (reconstruction_sql d tid). rr_row_id rc \<notin> set proto_names" by simp
  from add_records_plain [OF this] False show ?thesis by (simp add: get_rows_def)
qed

lemma get_rows_cases:
  "get_rows d tid = Inl TypeError \<or>
   get_rows d tid = Inr (map (\<lambda>p. finish_row (snd p)) (own_entries (row_map_of d tid)))"
proof (cases "\<exists>rc\<in>set (reconstruction_sql d tid). rr_row_id rc \<in> set proto_names")
  case True
  from add_records_throws [OF True] show ?thesis by (simp add: get_rows_def)
next
  case False
  then have "\<forall>rc\<in>set (reconstruction_sql d tid). rr_row_id rc \<notin> set proto_names" by simp
  from add_records_plain [OF this] show ?thesis by (simp add: get_rows_def row_map_of_def)
qed

lemma row_map_of_ok: "rm_ok (row_map_of d tid)"
  unfolding row_map_of_def
  by (intro fold_add_empty_ok fold_put_record_ok) (simp add: rm_ok_def)

lemma rm_ok_row_ids:
  "rm_ok rm \<Longrightarrow> row_id ` set (map (\<lambda>p. finish_row (snd p)) (own_entries rm)) = fst ` set rm"
  unfolding rm_ok_def by (force simp: own_entries_set finish_row_def)

lemma row_map_keys:
  "fst ` set (row_map_of d tid) =
     rr_row_id ` set (reconstruction_sql d tid) \<union>
     {k \<in> fst ` set (empty_rows_sql d tid). k \<notin> set proto_names}"
  by (simp add: row_map_of_def keys_fold_add_empty keys_fold_put_record)

lemma row_ids_sound:
  assumes "r \<in> row_ids d tid"
  shows "\<not> net_deleted d tid r \<and>
         (has_live_cell d tid r \<or> (has_created d tid r \<and> \<not> has_cell d tid r))"
proof -
  from assms get_rows_cases [of d tid]
  have g: "get_rows d tid = Inr (map (\<lambda>p. finish_row (snd p)) (own_entries (row_map_of d tid)))"
    by (auto simp: row_ids_def)
  with assms have "r \<in> fst ` set (row_map_of d tid)"
    by (simp add: row_ids_def rm_ok_row_ids [OF row_map_of_ok] del: set_map)
  then have "r \<in> rr_row_id ` set (reconstruction_sql d tid) \<or>
             r \<in> fst ` set (empty_rows_sql d tid)"
    unfolding row_map_keys by blast
  then show ?thesis using recon_rows [of r d tid] empty_rows_iff [of r d tid] by auto
qed

lemma recon_plain:
  assumes "plain_row_ids d tid" and "rc \<in> set (reconstruction_sql d tid)"
  shows "rr_row_id rc \<notin> set proto_names"
proof -
  from assms(2) have "has_live_cell d tid (rr_row_id rc)" using recon_rows by blast
  then obtain e where "e \<in> set (cell_rows d tid)" "e_row_id e = rr_row_id rc"
    unfolding has_live_cell_def by blast
  then have "e \<in> set (cell_history d)" "e_table_id e = tid" by (auto simp: cell_rows_def)
  with assms(1) \<open>e_row_id e = rr_row_id rc\<close> show ?thesis unfolding plain_row_ids_def by metis
qed

lemma empty_rows_plain:
  assumes "plain_row_ids d tid" and "p \<in> set (empty_rows_sql d tid)"
  shows "fst p \<notin> set proto_names"
proof -
  from assms(2) obtain ch where "ch \<in> set (cell_history d)" "p = (e_row_id ch, e_timestamp ch)"
    "e_table_id ch = tid" unfolding empty_rows_mem by blast
  with assms(1) show ?thesis unfolding plain_row_ids_def by auto
qed

lemma get_rows_plain:
  assumes "plain_row_ids d tid"
  shows "get_rows d tid = Inr (map (\<lambda>p. finish_row (snd p)) (own_entries (row_map_of d tid)))"
proof -
  from assms have "\<forall>rc\<in>set (reconstruction_sql d tid). rr_row_id rc \<notin> set proto_names"
    using recon_plain by blast
  from add_records_plain [OF this] show ?thesis by (simp add: get_rows_def row_map_of_def)
qed

lemma get_rows_row_iff:
  assumes "plain_row_ids d tid"
  shows "r \<in> row_ids d tid \<longleftrightarrow>
     \<not> net_deleted d tid r \<and>
     (has_live_cell d tid r \<or> (has_created d tid r \<and> \<not> has_cell d tid r))"
proof -
  have "{k \<in> fst ` set (empty_rows_sql d tid). k \<notin> set proto_names} =
        fst ` set (empty_rows_sql d tid)"
    using empty_rows_plain [OF assms] by auto
  then have "row_ids d tid =
        rr_row_id ` set (reconstruction_sql d tid) \<union> fst ` set (empty_rows_sql d tid)"
    unfolding row_ids_def get_rows_plain [OF assms]
    by (simp add: rm_ok_row_ids [OF row_map_of_ok] row_map_keys del: set_map)
  then show ?thesis
    using recon_rows [of r d tid] empty_rows_iff [of r d tid] by auto
qed

lemma pk_unique:
  "distinct (map e_id (cell_history d)) \<Longrightarrow> e \<in> set (cell_history d) \<Longrightarrow>
   e' \<in> set (cell_history d) \<Longrightarrow> e_id e = e_id e' \<Longrightarrow> e = e'"
  by (meson distinct_map inj_onD)

lemma latest_event_SomeD:
  assumes "latest_event d tid r cid = Some e"
  shows "e \<in> set (group_of d tid r (Some cid))"
    and "e_id e = sql_max (map e_id (group_of d tid r (Some cid)))"
  using assms unfolding latest_event_def Let_def
  by (auto simp: find_Some_iff in_set_conv_nth)

lemma latest_event_None_iff:
  "latest_event d tid r cid = None \<longleftrightarrow> group_of d tid r (Some cid) = []"
proof
  assume "latest_event d tid r cid = None"
  then have none: "\<forall>e\<in>set (group_of d tid r (Some cid)).
       e_id e \<noteq> sql_max (map e_id (group_of d tid r (Some cid)))"
    unfolding latest_event_def Let_def find_None_iff by blast
  show "group_of d tid r (Some cid) = []"
  proof (rule ccontr)
    assume "group_of d tid r (Some cid) \<noteq> []"
    from group_max_event [OF this] none show False by blast
  qed
next
  assume "group_of d tid r (Some cid) = []"
  then show "latest_event d tid r cid = None" by (simp add: latest_event_def)
qed

lemma greatest_is_latest:
  assumes pk: "distinct (map e_id (cell_history d))"
    and e: "e \<in> set (group_of d tid r (Some cid))"
    and mx: "\<forall>e'\<in>set (group_of d tid r (Some cid)). e_id e' \<le> e_id e"
  shows "latest_event d tid r cid = Some e"
proof -
  from e have ne: "group_of d tid r (Some cid) \<noteq> []" by auto
  then obtain e0 where e0: "latest_event d tid r cid = Some e0"
    using latest_event_None_iff [of d tid r cid] by (cases "latest_event d tid r cid") auto
  note d0 = latest_event_SomeD [OF e0]
  from e have "e_id e \<le> e_id e0" using sql_max_ge [of "e_id e" "map e_id (group_of d tid r (Some cid))"] d0(2)
    by simp
  moreover from mx d0(1) have "e_id e0 \<le> e_id e" by blast
  ultimately have "e_id e0 = e_id e" by simp
  moreover from e d0(1) have "e \<in> set (cell_history d)" "e0 \<in> set (cell_history d)"
    by (simp_all add: group_of_subset)
  ultimately have "e0 = e" using pk_unique [OF pk] by blast
  with e0 show ?thesis by simp
qed

lemma latest_join_pk:
  assumes pk: "distinct (map e_id (cell_history d))"
  shows "(r, Some cid, ch) \<in> set (latest_join d tid) \<longleftrightarrow> latest_event d tid r cid = Some ch"
proof
  assume "(r, Some cid, ch) \<in> set (latest_join d tid)"
  then have ne: "group_of d tid r (Some cid) \<noteq> []" and ch: "ch \<in> set (cell_history d)"
    and mx: "e_id ch = sql_max (map e_id (group_of d tid r (Some cid)))"
    by (simp_all add: latest_join_iff)
  from ne obtain e0 where e0: "latest_event d tid r cid = Some e0"
    using latest_event_None_iff [of d tid r cid] by (cases "latest_event d tid r cid") auto
  note d0 = latest_event_SomeD [OF e0]
  from d0(1) have "e0 \<in> set (cell_history d)" by (simp add: group_of_subset)
  with ch mx d0(2) have "e0 = ch" using pk_unique [OF pk, of e0 ch] by simp
  with e0 show "latest_event d tid r cid = Some ch" by simp
next
  assume a: "latest_event d tid r cid = Some ch"
  note d0 = latest_event_SomeD [OF a]
  from d0(1) have "group_of d tid r (Some cid) \<noteq> []" "ch \<in> set (cell_history d)"
    by (auto simp: group_of_subset)
  with d0(2) show "(r, Some cid, ch) \<in> set (latest_join d tid)"
    by (simp add: latest_join_iff)
qed

lemma map_of_put_record:
  "map_of (put_record rc rm) k =
     (if k = rr_row_id rc then map_of (put_record rc rm) (rr_row_id rc) else map_of rm k)"
  by (simp add: put_record_def Let_def update_conv')

lemma put_record_cell_same:
  "rr_row_id rc = k \<Longrightarrow> rr_column_name rc = n \<Longrightarrow> n \<noteq> ''__proto__'' \<Longrightarrow>
   \<exists>row. map_of (put_record rc rm) k = Some row \<and> map_of (ra_cells row) n = Some (rr_value rc)"
  by (simp add: put_record_def Let_def update_conv' assign_cell_def)

lemma put_record_cell_other:
  assumes "map_of rm k = Some row" "\<not> (rr_row_id rc = k \<and> rr_column_name rc = n)"
  shows "\<exists>row'. map_of (put_record rc rm) k = Some row' \<and>
           map_of (ra_cells row') n = map_of (ra_cells row) n"
  using assms by (auto simp: put_record_def Let_def update_conv' assign_cell_def)

lemma fold_put_record_cell:
  assumes "\<forall>rc\<in>set recs. rr_row_id rc = k \<and> rr_column_name rc = n \<longrightarrow> rr_value rc = v"
    and "(\<exists>rc\<in>set recs. rr_row_id rc = k \<and> rr_column_name rc = n) \<or>
         (\<exists>row. map_of rm k = Some row \<and> map_of (ra_cells row) n = Some v)"
    and "n \<noteq> ''__proto__''"
  shows "\<exists>row. map_of (fold put_record recs rm) k = Some row \<and> map_of (ra_cells row) n = Some v"
  using assms(1,2)
proof (induction recs arbitrary: rm)
  case Nil
  then show ?case by simp
next
  case (Cons rc recs)
  have "\<exists>row. map_of (put_record rc rm) k = Some row \<and> map_of (ra_cells row) n = Some v
        \<or> (\<exists>rc\<in>set recs. rr_row_id rc = k \<and> rr_column_name rc = n)"
  proof (cases "rr_row_id rc = k \<and> rr_column_name rc = n")
    case True
    with Cons.prems(1) have "rr_value rc = v" by simp
    with True put_record_cell_same [of rc k n rm] assms(3) show ?thesis by auto
  next
    case False
    from Cons.prems(2) False
    consider "\<exists>rc\<in>set recs. rr_row_id rc = k \<and> rr_column_name rc = n"
      | row where "map_of rm k = Some row" "map_of (ra_cells row) n = Some v" by auto
    then show ?thesis
    proof cases
      case 1
      then show ?thesis by blast
    next
      case 2
      from put_record_cell_other [OF 2(1) False] 2(2) show ?thesis by auto
    qed
  qed
  then have "(\<exists>rc\<in>set recs. rr_row_id rc = k \<and> rr_column_name rc = n) \<or>
         (\<exists>row. map_of (put_record rc rm) k = Some row \<and> map_of (ra_cells row) n = Some v)"
    by blast
  with Cons.IH [of "put_record rc rm"] Cons.prems(1) show ?case by simp
qed

lemma add_empty_keep: "map_of rm k = Some row \<Longrightarrow> map_of (add_empty p rm) k = Some row"
  by (auto simp: add_empty_def update_conv' split: option.splits)

lemma fold_add_empty_keep:
  "map_of rm k = Some row \<Longrightarrow> map_of (fold add_empty ps rm) k = Some row"
  by (induction ps arbitrary: rm) (auto simp: add_empty_keep)

lemma own_entries_distinct:
  assumes "distinct (map fst al)"
  shows "distinct (map fst (own_entries al))"
proof -
  from assms have inj: "inj_on fst (set al)" and dist: "distinct al"
    by (simp_all add: distinct_map)
  let ?a = "sort_key (\<lambda>p. (length (fst p), fst p)) (filter (\<lambda>p. array_index (fst p)) al)"
  let ?b = "filter (\<lambda>p. \<not> array_index (fst p)) al"
  have "distinct (map fst ?a)"
    using inj dist by (auto simp: distinct_map intro: inj_on_subset)
  moreover have "distinct (map fst ?b)"
    using assms by (simp add: distinct_map_filter)
  moreover have "set (map fst ?a) \<inter> set (map fst ?b) = {}" by auto
  ultimately show ?thesis unfolding own_entries_def by simp
qed

lemma map_of_own_entries:
  assumes "distinct (map fst al)"
  shows "map_of (own_entries al) = map_of al"
  using own_entries_distinct [OF assms] assms
  by (simp add: map_of_inject_set own_entries_set)

lemma finish_row_cells:
  "distinct (map fst (ra_cells ra)) \<Longrightarrow>
   map_of (cells (finish_row ra)) n = map_of (ra_cells ra) n"
  by (simp add: finish_row_def map_of_own_entries)

lemma get_rows_lookup:
  assumes "get_rows d tid = Inr rows" and "row \<in> set rows"
  shows "\<exists>ra. map_of (row_map_of d tid) (row_id row) = Some ra \<and> row = finish_row ra \<and>
           distinct (map fst (ra_cells ra))"
proof -
  from assms(1) get_rows_cases [of d tid]
  have "rows = map (\<lambda>p. finish_row (snd p)) (own_entries (row_map_of d tid))" by auto
  with assms(2) obtain k ra where k: "(k, ra) \<in> set (row_map_of d tid)" "row = finish_row ra"
    by (auto simp: own_entries_set)
  with row_map_of_ok [of d tid]
  have "ra_row_id ra = k" "distinct (map fst (row_map_of d tid))"
    "distinct (map fst (ra_cells ra))"
    unfolding rm_ok_def by auto
  with k show ?thesis by (auto simp: finish_row_def)
qed

lemma get_rows_lookup_conv:
  assumes "get_rows d tid = Inr rows" and "map_of (row_map_of d tid) k = Some ra"
  shows "finish_row ra \<in> set rows \<and> row_id (finish_row ra) = k"
proof -
  from assms(1) get_rows_cases [of d tid]
  have rows: "rows = map (\<lambda>p. finish_row (snd p)) (own_entries (row_map_of d tid))" by auto
  from assms(2) have in_rm: "(k, ra) \<in> set (row_map_of d tid)" by (rule map_of_SomeD)
  then have "finish_row ra \<in> set rows" unfolding rows by (force simp: own_entries_set)
  moreover from in_rm row_map_of_ok [of d tid] have "ra_row_id ra = k"
    unfolding rm_ok_def by auto
  ultimately show ?thesis by (simp add: finish_row_def)
qed

lemma column_unique:
  assumes "schema_ok d" "c \<in> set (columns d)" "c' \<in> set (columns d)"
    "c_table_id c = c_table_id c'" "c_name c = c_name c'"
  shows "c = c'"
proof -
  from assms(1) have "inj_on (\<lambda>c. (c_table_id c, c_name c)) (set (columns d))"
    unfolding schema_ok_def by (simp add: distinct_map)
  with assms(2-5) show ?thesis by (auto dest: inj_onD)
qed

lemma recon_value:
  assumes ok: "schema_ok d" and sc: "events_scoped d"
    and c: "c \<in> set (columns d)" "c_table_id c = tid"
    and rc: "rc \<in> set (reconstruction_sql d tid)" "rr_row_id rc = r" "rr_column_name rc = c_name c"
  shows "\<exists>e. latest_event d tid r (c_id c) = Some e \<and> rr_value rc = e_value e"
proof -
  from rc(1) obtain r' c' ch where h: "group_of d tid r' (Some (c_id c')) \<noteq> []"
      "ch \<in> set (cell_history d)"
      "e_id ch = sql_max (map e_id (group_of d tid r' (Some (c_id c'))))"
      "c' \<in> set (columns d)" "rc = recon_row r' c' ch"
    unfolding recon_iff by blast
  from h(5) rc(2,3) have r': "r' = r" and nm: "c_name c' = c_name c"
    by (simp_all add: recon_row_def)
  from h(1) obtain e0 where "e0 \<in> set (group_of d tid r' (Some (c_id c')))"
    by (cases "group_of d tid r' (Some (c_id c'))") auto
  then have e0: "e0 \<in> set (cell_history d)" "e_table_id e0 = tid" "e_column_id e0 = Some (c_id c')"
    by (simp_all add: group_of_subset)
  with sc h(4) have "c_table_id c' = tid" unfolding events_scoped_def by blast
  with column_unique [OF ok h(4) c(1)] c(2) nm have cc: "c' = c" by simp
  from ok have pk: "distinct (map e_id (cell_history d))" by (simp add: schema_ok_def)
  from h(1,2,3) have "(r, Some (c_id c), ch) \<in> set (latest_join d tid)"
    unfolding r' cc by (simp add: latest_join_iff)
  then have "latest_event d tid r (c_id c) = Some ch" by (simp add: latest_join_pk [OF pk])
  moreover from h(5) have "rr_value rc = e_value ch" by (simp add: recon_row_def)
  ultimately show ?thesis by blast
qed

lemma recon_exists:
  assumes "latest_event d tid r (c_id c) = Some e" "c \<in> set (columns d)" "c_deleted_at c = None"
    "\<not> net_deleted d tid r"
  shows "recon_row r c e \<in> set (reconstruction_sql d tid)"
proof -
  note d0 = latest_event_SomeD [OF assms(1)]
  from d0(1) have "group_of d tid r (Some (c_id c)) \<noteq> []" "e \<in> set (cell_history d)"
    by (auto simp: group_of_subset)
  with d0(2) assms(2-4) show ?thesis unfolding recon_iff by blast
qed

lemma get_rows_cell:
  assumes ok: "schema_ok d" and sc: "events_scoped d"
    and c: "c \<in> set (columns d)" "c_table_id c = tid" "c_deleted_at c = None"
    and nd: "\<not> net_deleted d tid r"
    and le: "latest_event d tid r (c_id c) = Some e"
    and nm: "c_name c \<noteq> ''__proto__''"
  shows "\<exists>row. map_of (row_map_of d tid) r = Some row \<and>
           map_of (ra_cells row) (c_name c) = Some (e_value e)"
proof -
  let ?recs = "reconstruction_sql d tid"
  have all: "\<forall>rc\<in>set ?recs. rr_row_id rc = r \<and> rr_column_name rc = c_name c \<longrightarrow>
               rr_value rc = e_value e"
    using recon_value [OF ok sc c(1,2)] le by fastforce
  have ex: "\<exists>rc\<in>set ?recs. rr_row_id rc = r \<and> rr_column_name rc = c_name c"
    using recon_exists [OF le c(1,3) nd] by (force simp: recon_row_def)
  from fold_put_record_cell [OF all _ nm, of "[]"] ex
  obtain row where "map_of (fold put_record ?recs []) r = Some row"
    "map_of (ra_cells row) (c_name c) = Some (e_value e)" by blast
  then show ?thesis unfolding row_map_of_def using fold_add_empty_keep by blast
qed

lemma get_rows_value:
  assumes ok: "schema_ok d" and sc: "events_scoped d" and pl: "plain_row_ids d tid"
    and c: "c \<in> set (columns d)" "c_table_id c = tid" "c_deleted_at c = None"
    and nm: "c_name c \<noteq> ''__proto__''"
    and nd: "\<not> net_deleted d tid r"
    and le: "latest_event d tid r (c_id c) = Some e"
  shows "\<exists>rows. get_rows d tid = Inr rows \<and> (\<exists>row\<in>set rows. row_id row = r) \<and>
           (\<forall>row\<in>set rows. row_id row = r \<longrightarrow>
              map_of (cells row) (c_name c) = Some (e_value e))"
proof -
  let ?rows = "map (\<lambda>p. finish_row (snd p)) (own_entries (row_map_of d tid))"
  have g: "get_rows d tid = Inr ?rows" by (rule get_rows_plain [OF pl])
  from get_rows_cell [OF ok sc c nd le nm]
  obtain ra where ra: "map_of (row_map_of d tid) r = Some ra"
    "map_of (ra_cells ra) (c_name c) = Some (e_value e)" by blast
  from get_rows_lookup_conv [OF g ra(1)] have 1: "\<exists>row\<in>set ?rows. row_id row = r" by blast
  have 2: "map_of (cells row) (c_name c) = Some (e_value e)"
    if "row \<in> set ?rows" "row_id row = r" for row
  proof -
    from get_rows_lookup [OF g that(1)] that(2) ra(1)
    have "row = finish_row ra" "distinct (map fst (ra_cells ra))" by auto
    with ra(2) show ?thesis by (simp add: finish_row_cells)
  qed
  from g 1 2 show ?thesis by blast
qed

lemma run_writes_no_fault:
  "run_writes k None ws d = (Inr (), fold (\<lambda>w. w) ws d)"
  by (induction ws arbitrary: k d) auto

lemma live_rows_set:
  "set [e_row_id ch. ch \<leftarrow> cell_history d, e_table_id ch = tid,
                e_sentinel ch = Some ''__new__'', e_row_id ch \<notin> set (deleted_rows d tid)]
   = {r. has_created d tid r \<and> \<not> net_deleted d tid r}"
  unfolding has_created_def by (auto simp: deleted_rows_iff)

lemma live_row_count_card:
  "live_row_count d tid = card {r. has_created d tid r \<and> \<not> net_deleted d tid r}"
  unfolding live_row_count_def live_rows_set [symmetric]
  by (simp add: length_remdups_card_conv)

lemma delete_table_blocked:
  "live_row_count d tid > 0 \<Longrightarrow>
   delete_table fault now d tid = (Inl (TableHasLiveRows (live_row_count d tid)), d)"
  by (simp add: delete_table_def Let_def)

lemma delete_table_cascade:
  "live_row_count d tid = 0 \<Longrightarrow>
   delete_table None now d tid =
     (Inr (), tombstone_table tid (now 2)
                (tombstone_table_columns tid (now 1) (tombstone_table_fks tid (now 0) d)))"
  by (simp add: delete_table_def Let_def run_writes_no_fault)

lemma filter_eq_singleton: "distinct xs \<Longrightarrow> c \<in> set xs \<Longrightarrow> filter (\<lambda>x. x = c) xs = [c]"
  by (induction xs) (auto simp: filter_empty_conv)

lemma live_column_filter:
  assumes "distinct (map c_id (columns d))" "c \<in> set (columns d)" "c_deleted_at c = None"
  shows "filter (\<lambda>x. c_id x = c_id c \<and> c_deleted_at x = None) (columns d) = [c]"
proof -
  from assms(1) have inj: "inj_on c_id (set (columns d))" and dist: "distinct (columns d)"
    by (simp_all add: distinct_map)
  have "filter (\<lambda>x. c_id x = c_id c \<and> c_deleted_at x = None) (columns d)
        = filter (\<lambda>x. x = c) (columns d)"
    using inj assms(2,3) by (intro filter_cong) (auto dest: inj_onD)
  also have "\<dots> = [c]"
    using dist assms(2) by (rule filter_eq_singleton)
  finally show ?thesis .
qed

lemma no_live_column_filter:
  "\<not> col_live d cid \<Longrightarrow> filter (\<lambda>x. c_id x = cid \<and> c_deleted_at x = None) (columns d) = []"
  by (auto simp: col_live_def filter_empty_conv)

lemma create_foreign_key_fail:
  assumes "distinct (map c_id (columns d))"
    and "\<not> col_live d cid \<or> col_in_table d cid tid \<or> \<not> table_live d tid \<or> live_fks d cid \<noteq> []"
  shows "isl (fst (create_foreign_key now d cid tid)) \<and> snd (create_foreign_key now d cid tid) = d"
proof (cases "col_live d cid")
  case False
  then show ?thesis by (simp add: create_foreign_key_def no_live_column_filter)
next
  case True
  then obtain c where c: "c \<in> set (columns d)" "c_id c = cid" "c_deleted_at c = None"
    unfolding col_live_def by blast
  from live_column_filter [OF assms(1) c(1,3)] c(2)
  have f: "filter (\<lambda>x. c_id x = cid \<and> c_deleted_at x = None) (columns d) = [c]" by simp
  have "col_in_table d cid tid \<Longrightarrow> c_table_id c = tid"
  proof -
    assume "col_in_table d cid tid"
    then obtain c' where c': "c' \<in> set (columns d)" "c_id c' = cid" "c_table_id c' = tid"
      unfolding col_in_table_def by blast
    from assms(1) have "inj_on c_id (set (columns d))" by (simp add: distinct_map)
    with c(1,2) c'(1,2) have "c' = c" by (auto dest: inj_onD)
    with c'(3) show ?thesis by simp
  qed
  with assms(2) True
  have "c_table_id c = tid \<or> \<not> table_live d tid \<or> live_fks d cid \<noteq> []" by blast
  then show ?thesis
    by (auto simp: create_foreign_key_def f table_live_def live_fks_def filter_empty_conv Let_def)
qed

lemma create_foreign_key_ok:
  assumes "distinct (map c_id (columns d))"
    and "col_live d cid" "\<not> col_in_table d cid tid" "table_live d tid" "live_fks d cid = []"
  shows "create_foreign_key now d cid tid =
           (Inr (fk_id (new_fk now d cid tid), cid, tid),
            d\<lparr>foreign_keys := foreign_keys d @ [new_fk now d cid tid]\<rparr>)"
proof -
  from assms(2) obtain c where c: "c \<in> set (columns d)" "c_id c = cid" "c_deleted_at c = None"
    unfolding col_live_def by blast
  from live_column_filter [OF assms(1) c(1,3)] c(2)
  have f: "filter (\<lambda>x. c_id x = cid \<and> c_deleted_at x = None) (columns d) = [c]" by simp
  from assms(3) c have ne: "c_table_id c \<noteq> tid" unfolding col_in_table_def by blast
  from assms(4) have t: "filter (\<lambda>t. t_id t = tid \<and> t_deleted_at t = None) (tables d) \<noteq> []"
    by (auto simp: table_live_def filter_empty_conv)
  from assms(5) have k: "filter (\<lambda>fk. fk_from_column_id fk = cid \<and> fk_deleted_at fk = None)
                    (foreign_keys d) = []" by (simp add: live_fks_def)
  show ?thesis
    by (simp add: create_foreign_key_def f ne t k Let_def new_fk_def)
qed

lemma one_fk_append:
  assumes "one_fk_per_column d" "live_fks d cid = []"
  shows "one_fk_per_column (d\<lparr>foreign_keys := foreign_keys d @ [new_fk now d cid tid]\<rparr>)"
  using assms unfolding one_fk_per_column_def live_fks_def new_fk_def
  by (auto simp: filter_empty_conv)

lemma col_get_ColEntryD:
  assumes "col_get (col_map_for_table d tid) n = ColEntry i u"
  shows "\<exists>c\<in>set (columns d). c_table_id c = tid \<and> c_deleted_at c = None \<and> c_name c = n \<and>
           c_id c = i \<and> c_is_unique c = u"
proof -
  let ?es = "[(c_name c, (c_id c, c_is_unique c)).
               c \<leftarrow> columns d, c_table_id c = tid, c_deleted_at c = None]"
  from assms have "(n, (i, u)) \<in> set ?es"
    unfolding col_get_def col_map_for_table_def Let_def
    by (auto split: if_splits option.splits dest!: map_of_SomeD)
  then show ?thesis by auto
qed

lemma col_get_live:
  assumes "c \<in> set (columns d)" "c_table_id c = tid" "c_deleted_at c = None"
  shows "\<exists>i u. col_get (col_map_for_table d tid) (c_name c) = ColEntry i u"
proof -
  let ?es = "[(c_name c, (c_id c, c_is_unique c)).
               c \<leftarrow> columns d, c_table_id c = tid, c_deleted_at c = None]"
  from assms have mem: "(c_name c, (c_id c, c_is_unique c)) \<in> set ?es" by auto
  show ?thesis
  proof (cases "c_name c = ''__proto__''")
    case True
    from mem have "c_name c \<in> fst ` set (rev ?es)" by force
    then have "map_of (rev ?es) (c_name c) \<noteq> None" unfolding map_of_eq_None_iff by simp
    with True show ?thesis
      unfolding col_get_def col_map_for_table_def Let_def by (auto split: option.splits)
  next
    case False
    with mem have "c_name c \<in> fst ` set (rev (filter (\<lambda>p. fst p \<noteq> ''__proto__'') ?es))"
      by force
    then have "map_of (rev (filter (\<lambda>p. fst p \<noteq> ''__proto__'') ?es)) (c_name c) \<noteq> None"
      unfolding map_of_eq_None_iff by simp
    with False show ?thesis
      unfolding col_get_def col_map_for_table_def Let_def by (auto split: option.splits)
  qed
qed

lemma recognised_accepted:
  "x \<in> set (recognised d tid cs) \<Longrightarrow> accepted (col_map_for_table d tid) x"
proof -
  assume a: "x \<in> set (recognised d tid cs)"
  obtain n v where x: "x = (n, v)" by (cases x)
  from a x obtain c where "c \<in> set (columns d)" "c_table_id c = tid" "c_deleted_at c = None"
    "c_name c = fst x" unfolding recognised_def by auto
  from col_get_live [OF this(1,2,3)] this(4) show ?thesis by (auto simp: accepted_def)
qed

lemma recognised_subset: "set (recognised d tid cs) \<subseteq> set cs"
  by (auto simp: recognised_def)

lemma validate_update_filter:
  "validate_update d tid cm fm rid (filter (accepted cm) cs) =
   validate_update d tid cm fm rid cs"
proof (induction cs)
  case Nil
  then show ?case by simp
next
  case (Cons x cs)
  obtain n v where x: "x = (n, v)" by (cases x)
  show ?case
  proof (cases "col_get cm n")
    case Undefined
    with Cons.IH show ?thesis by (simp add: x accepted_def)
  next
    case (ColEntry i u)
    then have "filter (accepted cm) (x # cs) = x # filter (accepted cm) cs"
      by (simp add: x accepted_def)
    with ColEntry show ?thesis by (simp add: x Cons.IH cong: option.case_cong)
  next
    case (Inherited t)
    then have "filter (accepted cm) (x # cs) = x # filter (accepted cm) cs"
      by (simp add: x accepted_def)
    with Inherited show ?thesis by (simp add: x Cons.IH)
  qed
qed

lemma write_update_skip:
  "\<not> accepted cm x \<Longrightarrow> write_update clock tid cm rid x st = st"
  by (simp add: write_update_def accepted_def)

lemma fold_write_update_filter:
  "fold (write_update clock tid cm rid) (filter (accepted cm) cs) st =
   fold (write_update clock tid cm rid) cs st"
proof (induction cs arbitrary: st)
  case Nil
  then show ?case by simp
next
  case (Cons x cs)
  show ?case
  proof (cases "accepted cm x")
    case False
    with Cons.IH [of st] show ?thesis by (simp add: write_update_skip)
  next
    case True
    with Cons.IH [of "write_update clock tid cm rid x st"] show ?thesis by simp
  qed
qed

lemma sql_max_append: "sql_max (xs @ ys) = max (sql_max xs) (sql_max ys)"
  by (induction xs) auto

lemma insert_event_history:
  "cell_history (insert_event clock tid rid cid sent v d) =
     cell_history d @
       [\<lparr>e_id = Suc (sql_max (map e_id (cell_history d))), e_table_id = tid, e_row_id = rid,
         e_column_id = cid, e_sentinel = sent, e_value = v,
         e_timestamp = clock (Suc (sql_max (map e_id (cell_history d))))\<rparr>]"
  by (simp add: insert_event_def Let_def)

lemma insert_event_rest:
  "tables (insert_event clock tid rid cid sent v d) = tables d"
  "columns (insert_event clock tid rid cid sent v d) = columns d"
  "foreign_keys (insert_event clock tid rid cid sent v d) = foreign_keys d"
  by (simp_all add: insert_event_def Let_def)

lemma insert_event_eq:
  "insert_event clock tid rid cid sent v d =
     d\<lparr>cell_history := cell_history (insert_event clock tid rid cid sent v d)\<rparr>"
  by (simp add: insert_event_def Let_def)

lemma insert_event_next:
  "Suc (sql_max (map e_id (cell_history (insert_event clock tid rid cid sent v d)))) =
   Suc (Suc (sql_max (map e_id (cell_history d))))"
  by (simp add: insert_event_history sql_max_append)

lemma fold_write_update_events:
  assumes "\<forall>x\<in>set xs. accepted cm x"
  shows "fold (write_update clock tid cm rid) xs (d, b) =
          (d\<lparr>cell_history := cell_history d @
                cell_events_from clock cm tid rid (Suc (sql_max (map e_id (cell_history d)))) xs\<rparr>,
           b \<or> xs \<noteq> [])"
  using assms
proof (induction xs arbitrary: d b)
  case Nil
  then show ?case by (simp add: cell_events_from_def)
next
  case (Cons x xs)
  obtain n v where x: "x = (n, v)" by (cases x)
  from Cons.prems x have cm: "col_get cm n \<noteq> Undefined" by (simp add: accepted_def)
  let ?d1 = "insert_event clock tid rid (bound_column (col_get cm n)) None v d"
  have step: "write_update clock tid cm rid x (d, b) = (?d1, True)"
    using cm by (simp add: write_update_def x)
  from Cons.prems have rest: "\<forall>x\<in>set xs. accepted cm x" by simp
  have "fold (write_update clock tid cm rid) (x # xs) (d, b) =
        fold (write_update clock tid cm rid) xs (?d1, True)" by (simp add: step)
  also have "\<dots> = (?d1\<lparr>cell_history := cell_history ?d1 @
                cell_events_from clock cm tid rid (Suc (sql_max (map e_id (cell_history ?d1)))) xs\<rparr>,
           True \<or> xs \<noteq> [])" by (rule Cons.IH [OF rest])
  also have "\<dots> = (d\<lparr>cell_history := cell_history d @
                cell_events_from clock cm tid rid (Suc (sql_max (map e_id (cell_history d)))) (x # xs)\<rparr>,
           b \<or> x # xs \<noteq> [])"
    unfolding insert_event_next
    by (simp add: insert_event_def Let_def cell_events_from_def x)
  finally show ?case .
qed

lemma update_row_unfold:
  "update_row clock d tid rid cs =
     (case validate_update d tid (col_map_for_table d tid) (get_fk_map_for_table d tid) rid cs of
        Some e \<Rightarrow> (Inl e, d)
      | None \<Rightarrow>
          if filter (accepted (col_map_for_table d tid)) cs = [] then (Inl NoValidColumns, d)
          else (Inr rid, d\<lparr>cell_history := cell_history d @ update_events clock d tid rid cs\<rparr>))"
proof -
  let ?cm = "col_map_for_table d tid"
  have "fold (write_update clock tid ?cm rid) cs (d, False) =
        fold (write_update clock tid ?cm rid) (filter (accepted ?cm) cs) (d, False)"
    by (simp add: fold_write_update_filter)
  also have "\<dots> = (d\<lparr>cell_history := cell_history d @ update_events clock d tid rid cs\<rparr>,
                    False \<or> filter (accepted ?cm) cs \<noteq> [])"
    unfolding update_events_def by (rule fold_write_update_events) simp
  finally have f: "fold (write_update clock tid ?cm rid) cs (d, False) =
     (d\<lparr>cell_history := cell_history d @ update_events clock d tid rid cs\<rparr>,
      filter (accepted ?cm) cs \<noteq> [])" by simp
  have e: "filter (accepted ?cm) cs = [] \<Longrightarrow> update_events clock d tid rid cs = []"
    by (simp add: update_events_def cell_events_from_def)
  show ?thesis
    unfolding update_row_def Let_def f by (auto split: option.splits simp: e)
qed

lemma update_events_length:
  "length (update_events clock d tid rid cs) =
   length (filter (accepted (col_map_for_table d tid)) cs)"
  by (simp add: update_events_def cell_events_from_def)

lemma cell_events_from_values:
  "map e_value (cell_events_from clock cm tid rid i xs) = map snd xs"
  by (induction xs arbitrary: i) (auto simp: cell_events_from_def)

lemma update_events_values:
  "map e_value (update_events clock d tid rid cs) =
   map snd (filter (accepted (col_map_for_table d tid)) cs)"
  by (simp add: update_events_def cell_events_from_values)

lemma cell_events_from_row:
  "\<forall>e\<in>set (cell_events_from clock cm tid rid i xs).
     e_row_id e = rid \<and> e_table_id e = tid \<and> e_sentinel e = None"
  by (auto simp: cell_events_from_def)

lemma update_events_row:
  "\<forall>e\<in>set (update_events clock d tid rid cs).
     e_row_id e = rid \<and> e_table_id e = tid \<and> e_sentinel e = None"
  unfolding update_events_def by (rule cell_events_from_row)

lemma update_events_nonempty:
  "recognised d tid cs \<noteq> [] \<Longrightarrow> update_events clock d tid rid cs \<noteq> []"
proof -
  assume "recognised d tid cs \<noteq> []"
  then obtain x where x: "x \<in> set (recognised d tid cs)" by (cases "recognised d tid cs") auto
  with recognised_subset have "x \<in> set cs" by blast
  with recognised_accepted [OF x]
  have "filter (accepted (col_map_for_table d tid)) cs \<noteq> []" by (auto simp: filter_empty_conv)
  then have "length (update_events clock d tid rid cs) \<noteq> 0"
    unfolding update_events_length by simp
  then show ?thesis by auto
qed

lemma accepted_plain:
  assumes "n \<notin> set proto_names" "n \<noteq> ''id''" "n \<noteq> ''is_unique''"
  shows "accepted (col_map_for_table d tid) (n, v) \<longleftrightarrow>
           (\<exists>c\<in>set (columns d). c_table_id c = tid \<and> c_deleted_at c = None \<and> c_name c = n)"
proof
  assume "accepted (col_map_for_table d tid) (n, v)"
  then have ne: "col_get (col_map_for_table d tid) n \<noteq> Undefined" by (simp add: accepted_def)
  from assms(1) have np: "n \<noteq> ''__proto__''" by (auto simp: proto_names_def)
  from ne np assms obtain i u where "col_get (col_map_for_table d tid) n = ColEntry i u"
    unfolding col_get_def by (auto split: option.splits if_splits)
  from col_get_ColEntryD [OF this]
  show "\<exists>c\<in>set (columns d). c_table_id c = tid \<and> c_deleted_at c = None \<and> c_name c = n"
    by blast
next
  assume "\<exists>c\<in>set (columns d). c_table_id c = tid \<and> c_deleted_at c = None \<and> c_name c = n"
  then obtain c where "c \<in> set (columns d)" "c_table_id c = tid" "c_deleted_at c = None"
    "c_name c = n" by blast
  from col_get_live [OF this(1,2,3)] this(4)
  show "accepted (col_map_for_table d tid) (n, v)" by (auto simp: accepted_def)
qed

lemma recognised_plain:
  assumes "plain_names cs"
  shows "filter (accepted (col_map_for_table d tid)) cs = recognised d tid cs"
  unfolding recognised_def
proof (rule filter_cong [OF refl])
  fix x assume x: "x \<in> set cs"
  obtain n v where nv: "x = (n, v)" by (cases x)
  from assms x nv have "n \<notin> set proto_names" "n \<noteq> ''id''" "n \<noteq> ''is_unique''"
    unfolding plain_names_def by auto
  from accepted_plain [OF this, of d tid v]
  show "accepted (col_map_for_table d tid) x =
        (case x of (n, v) \<Rightarrow> \<exists>c\<in>set (columns d). c_table_id c = tid \<and>
            c_deleted_at c = None \<and> c_name c = n)"
    by (simp add: nv)
qed

lemma update_row_plain:
  assumes "plain_names cs"
  shows "update_row clock d tid rid cs =
     (case validate_update d tid (col_map_for_table d tid) (get_fk_map_for_table d tid) rid cs of
        Some e \<Rightarrow> (Inl e, d)
      | None \<Rightarrow>
          if recognised d tid cs = [] then (Inl NoValidColumns, d)
          else (Inr rid, d\<lparr>cell_history := cell_history d @ update_events clock d tid rid cs\<rparr>))"
    and "length (update_events clock d tid rid cs) = length (recognised d tid cs)"
    and "map e_value (update_events clock d tid rid cs) = map snd (recognised d tid cs)"
  unfolding update_row_unfold update_events_length update_events_values
    recognised_plain [OF assms] by simp_all

lemma plain_names_recognised: "plain_names cs \<Longrightarrow> plain_names (recognised d tid cs)"
  unfolding plain_names_def recognised_def by auto

lemma update_row_recognised_plain:
  assumes "plain_names cs"
  shows "update_row clock d tid rid (recognised d tid cs) = update_row clock d tid rid cs"
proof -
  let ?cm = "col_map_for_table d tid"
  have r: "recognised d tid (recognised d tid cs) = recognised d tid cs"
    by (simp add: recognised_def)
  have v: "validate_update d tid ?cm (get_fk_map_for_table d tid) rid (recognised d tid cs) =
           validate_update d tid ?cm (get_fk_map_for_table d tid) rid cs"
    unfolding recognised_plain [OF assms, symmetric] by (rule validate_update_filter)
  have e: "update_events clock d tid rid (recognised d tid cs) =
           update_events clock d tid rid cs"
    unfolding update_events_def
      recognised_plain [OF plain_names_recognised [OF assms]] recognised_plain [OF assms] r ..
  show ?thesis
    unfolding update_row_plain(1) [OF assms]
      update_row_plain(1) [OF plain_names_recognised [OF assms]] r v e ..
qed

lemma put_record_cell_src:
  assumes "map_of (put_record rc rm) k = Some row" "map_of (ra_cells row) n = Some v"
  shows "(rr_row_id rc = k \<and> rr_column_name rc = n \<and> rr_value rc = v) \<or>
         (\<exists>row0. map_of rm k = Some row0 \<and> map_of (ra_cells row0) n = Some v)"
proof (cases "rr_row_id rc = k")
  case False
  with assms show ?thesis by (simp add: put_record_def Let_def update_conv')
next
  case True
  show ?thesis
  proof (cases "rr_column_name rc = n")
    case True
    with \<open>rr_row_id rc = k\<close> assms show ?thesis
      by (cases "map_of rm k")
        (auto simp: put_record_def Let_def update_conv' assign_cell_def split: if_splits)
  next
    case False
    with \<open>rr_row_id rc = k\<close> assms show ?thesis
      by (cases "map_of rm k")
        (auto simp: put_record_def Let_def update_conv' assign_cell_def split: if_splits)
  qed
qed

lemma fold_put_record_cell_src:
  assumes "map_of (fold put_record recs rm) k = Some row" "map_of (ra_cells row) n = Some v"
  shows "(\<exists>rc\<in>set recs. rr_row_id rc = k \<and> rr_column_name rc = n \<and> rr_value rc = v) \<or>
         (\<exists>row0. map_of rm k = Some row0 \<and> map_of (ra_cells row0) n = Some v)"
  using assms
proof (induction recs arbitrary: rm)
  case Nil
  then show ?case by simp
next
  case (Cons rc recs)
  from Cons.prems have "map_of (fold put_record recs (put_record rc rm)) k = Some row" by simp
  from Cons.IH [OF this Cons.prems(2)]
  consider "\<exists>rc\<in>set recs. rr_row_id rc = k \<and> rr_column_name rc = n \<and> rr_value rc = v"
    | row0 where "map_of (put_record rc rm) k = Some row0" "map_of (ra_cells row0) n = Some v"
    by blast
  then show ?case
  proof cases
    case 1
    then show ?thesis by auto
  next
    case 2
    from put_record_cell_src [OF 2] show ?thesis by auto
  qed
qed

lemma add_empty_src:
  "map_of (add_empty p rm) k = Some row \<Longrightarrow> map_of rm k = Some row \<or> ra_cells row = []"
  by (auto simp: add_empty_def update_conv' split: option.splits if_splits)

lemma fold_add_empty_src:
  "map_of (fold add_empty ps rm) k = Some row \<Longrightarrow> map_of rm k = Some row \<or> ra_cells row = []"
proof (induction ps arbitrary: rm)
  case Nil
  then show ?case by simp
next
  case (Cons p ps)
  from Cons.prems have "map_of (fold add_empty ps (add_empty p rm)) k = Some row" by simp
  from Cons.IH [OF this] add_empty_src [of p rm k row] show ?case by blast
qed

lemma get_rows_cell_src:
  assumes "get_rows d tid = Inr rows" "row \<in> set rows" "map_of (cells row) n = Some v"
  shows "\<exists>rc\<in>set (reconstruction_sql d tid).
           rr_row_id rc = row_id row \<and> rr_column_name rc = n \<and> rr_value rc = v"
proof -
  from get_rows_lookup [OF assms(1,2)]
  obtain ra where ra: "map_of (row_map_of d tid) (row_id row) = Some ra" "row = finish_row ra"
    "distinct (map fst (ra_cells ra))" by blast
  from ra(2,3) assms(3) have cell: "map_of (ra_cells ra) n = Some v"
    by (simp add: finish_row_cells)
  from ra(1)
  have "map_of (fold add_empty (empty_rows_sql d tid)
            (fold put_record (reconstruction_sql d tid) [])) (row_id row) = Some ra"
    by (simp add: row_map_of_def)
  from fold_add_empty_src [OF this] cell
  have "map_of (fold put_record (reconstruction_sql d tid) []) (row_id row) = Some ra" by auto
  from fold_put_record_cell_src [OF this cell] show ?thesis by simp
qed

lemma recon_not_deleted:
  "rc \<in> set (reconstruction_sql d tid) \<Longrightarrow> \<not> net_deleted d tid (rr_row_id rc)"
  unfolding recon_iff by (auto simp: recon_row_def)

lemma holds_iff:
  "holds d tid r cid v \<longleftrightarrow> (\<exists>e. latest_event d tid r cid = Some e \<and> e_value e = v)"
  by (simp add: holds_def split: option.splits)

lemma reports_holds:
  assumes ok: "schema_ok d" and sc: "events_scoped d"
    and c: "c \<in> set (columns d)" "c_table_id c = tid"
    and rep: "reports d tid r c v"
  shows "\<not> net_deleted d tid r \<and> holds d tid r (c_id c) v"
proof -
  from rep obtain rows row where row: "get_rows d tid = Inr rows" "row \<in> set rows"
    "row_id row = r" "map_of (cells row) (c_name c) = Some v"
    unfolding reports_def by (auto split: sum.splits)
  from get_rows_cell_src [OF row(1,2,4)] row(3)
  obtain rc where rc: "rc \<in> set (reconstruction_sql d tid)" "rr_row_id rc = r"
    "rr_column_name rc = c_name c" "rr_value rc = v" by auto
  from recon_value [OF ok sc c(1,2) rc(1,2,3)] rc(4) recon_not_deleted [OF rc(1)] rc(2)
  show ?thesis unfolding holds_iff by auto
qed

lemma holds_reports:
  assumes ok: "schema_ok d" and sc: "events_scoped d" and pl: "plain_row_ids d tid"
    and c: "c \<in> set (columns d)" "c_table_id c = tid" "c_deleted_at c = None"
    and nm: "c_name c \<noteq> ''__proto__''"
    and nd: "\<not> net_deleted d tid r" and h: "holds d tid r (c_id c) v"
  shows "reports d tid r c v"
proof -
  from h obtain e where e: "latest_event d tid r (c_id c) = Some e" "e_value e = v"
    unfolding holds_iff by blast
  from get_rows_value [OF ok sc pl c nm nd e(1)]
  obtain rows row where "get_rows d tid = Inr rows" "row \<in> set rows" "row_id row = r"
    "map_of (cells row) (c_name c) = Some (e_value e)" by blast
  with e(2) show ?thesis unfolding reports_def by auto
qed

lemma filter_key_le1: "distinct (map f xs) \<Longrightarrow> length (filter (\<lambda>x. f x = a) xs) \<le> 1"
proof (induction xs)
  case Nil
  then show ?case by simp
next
  case (Cons x xs)
  show ?case
  proof (cases "f x = a")
    case True
    from Cons.prems have "f x \<notin> f ` set xs" by simp
    with True have "\<forall>y\<in>set xs. f y \<noteq> a" by blast
    then have "filter (\<lambda>x. f x = a) xs = []" by (simp add: filter_empty_conv)
    with True show ?thesis by simp
  next
    case False
    with Cons show ?thesis by simp
  qed
qed

lemma distinct_concat_keys:
  assumes "distinct (map f xs)"
    and "\<forall>x\<in>set xs. length (g x) \<le> 1 \<and> (\<forall>y\<in>set (g x). h y = f x)"
  shows "distinct (map h (concat (map g xs)))"
  using assms
proof (induction xs)
  case Nil
  then show ?case by simp
next
  case (Cons x xs)
  from Cons.prems have ih: "distinct (map h (concat (map g xs)))"
    by (intro Cons.IH) auto
  from Cons.prems(2) have gx: "length (g x) \<le> 1" "\<forall>y\<in>set (g x). h y = f x" by auto
  from gx(1) have d1: "distinct (map h (g x))"
    by (cases "g x") (auto simp: le_Suc_eq)
  have "\<forall>y\<in>set (concat (map g xs)). h y \<in> f ` set xs"
    using Cons.prems(2) by auto
  moreover from Cons.prems(1) have "f x \<notin> f ` set xs" by auto
  ultimately have "set (map h (g x)) \<inter> set (map h (concat (map g xs))) = {}"
    using gx(2) by auto
  with ih d1 show ?case by simp
qed

lemma latest_keys_distinct: "distinct (map (\<lambda>(r, c, mx). (r, c)) (latest d tid))"
proof -
  have "map (\<lambda>(r, c, mx). (r, c)) (latest d tid) =
        remdups (map (\<lambda>e. (e_row_id e, e_column_id e)) (cell_rows d tid))"
    unfolding latest_def Let_def by (simp add: comp_def split_beta)
  then show ?thesis by simp
qed

lemma concat_map_if:
  "concat (map (\<lambda>x. if P x then [g x] else []) xs) = map g (filter P xs)"
  by (induction xs) auto

lemma latest_join_concat:
  "latest_join d tid =
     concat (map (\<lambda>(r, c, mx). map (\<lambda>ch. (r, c, ch)) (filter (\<lambda>ch. e_id ch = mx) (cell_history d)))
                 (latest d tid))"
  unfolding latest_join_def by (simp add: concat_map_if)

lemma latest_join_keys_distinct:
  assumes "distinct (map e_id (cell_history d))"
  shows "distinct (map (\<lambda>(r, c, ch). (r, c)) (latest_join d tid))"
  unfolding latest_join_concat
proof (rule distinct_concat_keys [OF latest_keys_distinct], rule ballI)
  fix x assume "x \<in> set (latest d tid)"
  obtain r c mx where x: "x = (r, c, mx)" by (cases x)
  from filter_key_le1 [OF assms, of mx]
  show "length (case x of (r, c, mx) \<Rightarrow>
            map (\<lambda>ch. (r, c, ch)) (filter (\<lambda>ch. e_id ch = mx) (cell_history d))) \<le> 1 \<and>
        (\<forall>y\<in>set (case x of (r, c, mx) \<Rightarrow>
            map (\<lambda>ch. (r, c, ch)) (filter (\<lambda>ch. e_id ch = mx) (cell_history d))).
            (case y of (r, c, ch) \<Rightarrow> (r, c)) = (case x of (r, c, mx) \<Rightarrow> (r, c)))"
    by (auto simp: x)
qed

lemma distinct_map_coarser:
  assumes "distinct (map f ys)" "\<forall>x\<in>set ys. \<forall>y\<in>set ys. g x = g y \<longrightarrow> f x = f y"
  shows "distinct (map g ys)"
proof -
  from assms(1) have d: "distinct ys" and inj: "inj_on f (set ys)" by (simp_all add: distinct_map)
  have "inj_on g (set ys)"
  proof (rule inj_onI)
    fix x y assume "x \<in> set ys" "y \<in> set ys" "g x = g y"
    with assms(2) have "f x = f y" by blast
    with inj \<open>x \<in> set ys\<close> \<open>y \<in> set ys\<close> show "x = y" by (auto dest: inj_onD)
  qed
  with d show ?thesis by (simp add: distinct_map)
qed

lemma join_rows_distinct:
  assumes "distinct (map e_id (cell_history d))"
  shows "distinct (map fst (join_rows d tid cid P))"
proof -
  let ?k = "\<lambda>(r, c, ch). (r, c)"
  have "distinct (map ?k (join_rows d tid cid P))"
    unfolding join_rows_def by (rule distinct_map_filter [OF latest_join_keys_distinct [OF assms]])
  moreover have "\<forall>x\<in>set (join_rows d tid cid P). \<forall>y\<in>set (join_rows d tid cid P).
       fst x = fst y \<longrightarrow> ?k x = ?k y"
    by (auto simp: join_rows_def)
  ultimately show ?thesis by (rule distinct_map_coarser)
qed

lemma join_rows_iff:
  assumes "distinct (map e_id (cell_history d))"
  shows "(r, c, ch) \<in> set (join_rows d tid cid P) \<longleftrightarrow>
           c = Some cid \<and> latest_event d tid r cid = Some ch \<and> P r ch \<and> \<not> net_deleted d tid r"
  unfolding join_rows_def using latest_join_pk [OF assms, of r cid ch tid]
  by (auto simp: deleted_rows_iff)

lemma join_rows_fst:
  assumes "distinct (map e_id (cell_history d))"
  shows "set (map fst (join_rows d tid cid P)) =
           {r. \<not> net_deleted d tid r \<and> (\<exists>ch. latest_event d tid r cid = Some ch \<and> P r ch)}"
proof (intro set_eqI iffI)
  fix r assume "r \<in> set (map fst (join_rows d tid cid P))"
  then obtain c ch where "(r, c, ch) \<in> set (join_rows d tid cid P)" by force
  then show "r \<in> {r. \<not> net_deleted d tid r \<and> (\<exists>ch. latest_event d tid r cid = Some ch \<and> P r ch)}"
    by (auto simp: join_rows_iff [OF assms])
next
  fix r assume "r \<in> {r. \<not> net_deleted d tid r \<and> (\<exists>ch. latest_event d tid r cid = Some ch \<and> P r ch)}"
  then obtain ch where "(r, Some cid, ch) \<in> set (join_rows d tid cid P)"
    by (auto simp: join_rows_iff [OF assms])
  then show "r \<in> set (map fst (join_rows d tid cid P))" by force
qed

lemma guarded_comprehension:
  "concat (map (\<lambda>(r, c, ch). if A c then if B r ch then if D r then [f r ch] else [] else [] else [])
             L) =
   map (\<lambda>(r, c, ch). f r ch) (filter (\<lambda>(r, c, ch). A c \<and> B r ch \<and> D r) L)"
  by (induction L) (auto split: if_splits)

lemma guarded4:
  "concat (map (\<lambda>(r, c, ch). if A c then if B r ch then if C r ch then if D r then [f r ch]
                   else [] else [] else [] else []) L) =
   map (\<lambda>(r, c, ch). f r ch) (filter (\<lambda>(r, c, ch). A c \<and> (B r ch \<and> C r ch) \<and> D r) L)"
  by (induction L) (auto split: if_splits)

lemma check_uniqueness_join:
  "check_uniqueness d tid cid col_name v excl =
     (if \<not> truthy v then None
      else if join_rows d tid cid (\<lambda>r ch. e_value ch = v \<and> r \<noteq> excl) \<noteq> []
      then Some (UniqueViolation (case v of Some s \<Rightarrow> s | None \<Rightarrow> []) col_name)
      else None)"
proof -
  have "[e_value ch. (r, c, ch) \<leftarrow> latest_join d tid, c = Some cid, e_value ch = v,
                 r \<noteq> excl, r \<notin> set (deleted_rows d tid)] =
        map (\<lambda>(r, c, ch). e_value ch) (join_rows d tid cid (\<lambda>r ch. e_value ch = v \<and> r \<noteq> excl))"
    unfolding join_rows_def
    by (rule guarded4 [where A = "\<lambda>c. c = Some cid" and B = "\<lambda>r ch. e_value ch = v"
          and C = "\<lambda>r ch. r \<noteq> excl" and D = "\<lambda>r. r \<notin> set (deleted_rows d tid)"
          and f = "\<lambda>r ch. e_value ch"])
  then show ?thesis unfolding check_uniqueness_def by simp
qed

lemma ref_count_join:
  "ref_count d tid cid rid = length (join_rows d tid cid (\<lambda>r ch. e_value ch = Some rid))"
proof -
  have "[r. (r, c, ch) \<leftarrow> latest_join d tid, c = Some cid,
             e_value ch = Some rid, r \<notin> set (deleted_rows d tid)] =
        map fst (join_rows d tid cid (\<lambda>r ch. e_value ch = Some rid))"
    unfolding join_rows_def
    using guarded_comprehension [where A = "\<lambda>c. c = Some cid" and B = "\<lambda>r ch. e_value ch = Some rid"
          and D = "\<lambda>r. r \<notin> set (deleted_rows d tid)" and f = "\<lambda>r ch. r"
          and L = "latest_join d tid"]
    by (simp add: split_beta)
  then show ?thesis unfolding ref_count_def by simp
qed

lemma dupes_join:
  "dupes d tid cid =
     (let vs = map (\<lambda>(r, c, ch). e_value ch)
                 (join_rows d tid cid (\<lambda>r ch. e_value ch \<noteq> None \<and> e_value ch \<noteq> Some []))
      in filter (\<lambda>v. length (filter (\<lambda>w. w = v) vs) > 1) (remdups vs))"
proof -
  have "[e_value ch. (r, c, ch) \<leftarrow> latest_join d tid, c = Some cid,
                e_value ch \<noteq> None, e_value ch \<noteq> Some [], r \<notin> set (deleted_rows d tid)] =
        map (\<lambda>(r, c, ch). e_value ch)
                 (join_rows d tid cid (\<lambda>r ch. e_value ch \<noteq> None \<and> e_value ch \<noteq> Some []))"
    unfolding join_rows_def
    by (rule guarded4 [where A = "\<lambda>c. c = Some cid" and B = "\<lambda>r ch. e_value ch \<noteq> None"
          and C = "\<lambda>r ch. e_value ch \<noteq> Some []" and D = "\<lambda>r. r \<notin> set (deleted_rows d tid)"
          and f = "\<lambda>r ch. e_value ch"])
  then show ?thesis unfolding dupes_def by simp
qed

lemma table_names_distinct:
  assumes "schema_ok d"
  shows "distinct (map c_name (filter (\<lambda>c. c_table_id c = tid \<and> c_deleted_at c = None) (columns d)))"
proof -
  let ?ys = "filter (\<lambda>c. c_table_id c = tid \<and> c_deleted_at c = None) (columns d)"
  from assms have "distinct (map (\<lambda>c. (c_table_id c, c_name c)) (columns d))"
    by (simp add: schema_ok_def)
  then have "distinct (map (\<lambda>c. (c_table_id c, c_name c)) ?ys)" by (rule distinct_map_filter)
  moreover have "\<forall>x\<in>set ?ys. \<forall>y\<in>set ?ys. c_name x = c_name y \<longrightarrow>
      (c_table_id x, c_name x) = (c_table_id y, c_name y)" by simp
  ultimately show ?thesis by (rule distinct_map_coarser)
qed

lemma concat_map_if2:
  "concat (map (\<lambda>x. if A x then if B x then [g x] else [] else []) xs) =
   map g (filter (\<lambda>x. A x \<and> B x) xs)"
  by (induction xs) auto

lemma col_get_schema:
  assumes "schema_ok d" "c \<in> set (columns d)" "c_table_id c = tid" "c_deleted_at c = None"
  shows "col_get (col_map_for_table d tid) (c_name c) = ColEntry (c_id c) (c_is_unique c)"
proof -
  from col_get_live [OF assms(2-4)]
  obtain i u where g: "col_get (col_map_for_table d tid) (c_name c) = ColEntry i u" by blast
  from col_get_ColEntryD [OF g]
  obtain c' where c': "c' \<in> set (columns d)" "c_table_id c' = tid" "c_name c' = c_name c"
    "c_id c' = i" "c_is_unique c' = u" by blast
  from column_unique [OF assms(1) c'(1) assms(2)] c'(2,3) assms(3) have "c' = c" by simp
  with g c'(4,5) show ?thesis by simp
qed

lemma validate_create_None:
  assumes "validate_create d tid cm fm rid cs = None" "(n, v) \<in> set cs"
    "col_get cm n = ColEntry cid u" "truthy v" "u \<noteq> 0"
  shows "check_uniqueness d tid cid n v rid = None"
  using assms
proof (induction cs)
  case Nil
  then show ?case by simp
next
  case (Cons x cs)
  obtain n' v' where x: "x = (n', v')" by (cases x)
  show ?case
  proof (cases "(n, v) = x")
    case True
    with Cons.prems x show ?thesis by (auto split: option.splits if_splits)
  next
    case False
    with Cons.prems have in_cs: "(n, v) \<in> set cs" by auto
    from Cons.prems(1) have "validate_create d tid cm fm rid cs = None"
      unfolding x by (auto split: option.splits if_splits col_lookup.splits)
    from Cons.IH [OF this in_cs Cons.prems(3,4,5)] show ?thesis .
  qed
qed

lemma create_row_fail_unchanged:
  "isl (fst (create_row clock rid d tid cs)) \<Longrightarrow> snd (create_row clock rid d tid cs) = d"
  by (auto simp: create_row_def Let_def split: option.splits)

lemma create_row_fails_iff:
  "isl (fst (create_row clock rid d tid cs)) \<longleftrightarrow>
     validate_create d tid (col_map_for_table d tid) (get_fk_map_for_table d tid) rid cs \<noteq> None"
  by (auto simp: create_row_def Let_def split: option.splits)

lemma holders_set:
  "set (holders d tid cid v) = {r. \<not> net_deleted d tid r \<and> holds d tid r cid v}"
proof -
  have "r \<in> set (cell_row_ids d tid)" if "holds d tid r cid v" for r
  proof -
    from that obtain e where "latest_event d tid r cid = Some e" unfolding holds_iff by blast
    from latest_event_SomeD(1) [OF this]
    have "e \<in> set (cell_rows d tid)" "e_row_id e = r" by (auto simp: group_of_def)
    then show ?thesis unfolding cell_row_ids_def by auto
  qed
  then show ?thesis unfolding holders_def by auto
qed

lemma holders_distinct: "distinct (holders d tid cid v)"
  by (simp add: holders_def cell_row_ids_def)

lemma live_holders_set:
  "set (live_holders d tid cid v) = {r. live_row d tid r \<and> holds d tid r cid v}"
  unfolding live_holders_def live_row_def by (auto simp: holders_set)

lemma live_holders_distinct: "distinct (live_holders d tid cid v)"
  by (simp add: live_holders_def holders_distinct)

lemma live_holders_subset: "set (live_holders d tid cid v) \<subseteq> set (holders d tid cid v)"
  by (auto simp: live_holders_def)

lemma live_holders_length: "length (live_holders d tid cid v) \<le> length (holders d tid cid v)"
  by (simp add: live_holders_def)

lemma join_rows_holders:
  assumes "distinct (map e_id (cell_history d))"
  shows "set (map fst (join_rows d tid cid (\<lambda>r ch. e_value ch = v \<and> Q r))) =
           {r \<in> set (holders d tid cid v). Q r}"
  unfolding join_rows_fst [OF assms] holders_set holds_iff by auto

lemma join_rows_length:
  assumes "distinct (map e_id (cell_history d))"
  shows "length (join_rows d tid cid (\<lambda>r ch. e_value ch = v)) = length (holders d tid cid v)"
proof -
  let ?J = "join_rows d tid cid (\<lambda>r ch. e_value ch = v)"
  have "set (map fst ?J) = set (holders d tid cid v)"
    using join_rows_holders [OF assms, of tid cid v "\<lambda>r. True"] by simp
  moreover have "card (set (map fst ?J)) = length (map fst ?J)"
    by (rule distinct_card [OF join_rows_distinct [OF assms]])
  moreover have "card (set (holders d tid cid v)) = length (holders d tid cid v)"
    by (rule distinct_card [OF holders_distinct])
  ultimately have "length (map fst ?J) = length (holders d tid cid v)" by simp
  then show ?thesis by simp
qed

lemma ref_count_holders:
  assumes "distinct (map e_id (cell_history d))"
  shows "ref_count d tid cid rid = length (holders d tid cid (Some rid))"
  unfolding ref_count_join by (rule join_rows_length [OF assms])

lemma check_uniqueness_holders:
  assumes "distinct (map e_id (cell_history d))" and "truthy v"
  shows "check_uniqueness d tid cid col_name v excl = None \<longleftrightarrow>
           filter (\<lambda>r. r \<noteq> excl) (holders d tid cid v) = []"
proof -
  let ?J = "join_rows d tid cid (\<lambda>r ch. e_value ch = v \<and> r \<noteq> excl)"
  have "?J = [] \<longleftrightarrow> set (map fst ?J) = {}" by simp
  also have "\<dots> \<longleftrightarrow> {r \<in> set (holders d tid cid v). r \<noteq> excl} = {}"
    unfolding join_rows_holders [OF assms(1), of tid cid v "\<lambda>r. r \<noteq> excl"] ..
  also have "\<dots> \<longleftrightarrow> filter (\<lambda>r. r \<noteq> excl) (holders d tid cid v) = []"
    by (auto simp: filter_empty_conv)
  finally show ?thesis using assms(2) unfolding check_uniqueness_join by simp
qed

lemma check_uniqueness_holds:
  assumes "distinct (map e_id (cell_history d))" and "truthy v" and "r \<noteq> excl"
    and "\<not> net_deleted d tid r" and "holds d tid r cid v"
  shows "check_uniqueness d tid cid col_name v excl \<noteq> None"
proof -
  from assms(3-5) have "r \<in> set (filter (\<lambda>r. r \<noteq> excl) (holders d tid cid v))"
    by (simp add: holders_set)
  then have "filter (\<lambda>r. r \<noteq> excl) (holders d tid cid v) \<noteq> []"
    by (cases "filter (\<lambda>r. r \<noteq> excl) (holders d tid cid v)") simp_all
  then show ?thesis unfolding check_uniqueness_holders [OF assms(1,2)] .
qed

lemma check_fk_exists_live:
  assumes "truthy v"
  shows "check_fk_exists d to_tid v col_name = None \<longleftrightarrow>
           (case v of Some s \<Rightarrow> live_row d to_tid s | None \<Rightarrow> False)"
proof -
  from assms obtain s where v: "v = Some s" by (cases v) (auto simp: truthy_def)
  define xs where "xs = [e_row_id ch. ch \<leftarrow> cell_history d, e_table_id ch = to_tid,
                 e_sentinel ch = Some ''__new__'', Some (e_row_id ch) = v,
                 e_row_id ch \<notin> set (deleted_rows d to_tid)]"
  have "set xs = {r. r = s \<and> has_created d to_tid r \<and> \<not> net_deleted d to_tid r}"
    unfolding xs_def has_created_def v by (auto simp: deleted_rows_iff)
  then have "set xs \<noteq> {} \<longleftrightarrow> live_row d to_tid s"
    unfolding live_row_def by auto
  then have ne: "xs \<noteq> [] \<longleftrightarrow> live_row d to_tid s" by (simp only: set_empty)
  have "check_fk_exists d to_tid v col_name =
          (if xs = [] then Some (FkTargetMissing col_name) else None)"
    unfolding check_fk_exists_def xs_def by (simp only: assms simp_thms if_False)
  with ne show ?thesis by (auto simp: v)
qed

lemma fk_map_SomeD:
  assumes "get_fk_map_for_table d tid cid = Some to_tid"
  shows "\<exists>fk\<in>set (foreign_keys d). fk_deleted_at fk = None \<and> fk_from_column_id fk = cid \<and>
           fk_to_table_id fk = to_tid"
proof -
  let ?L = "[(fk_from_column_id fk, fk_to_table_id fk).
           fk \<leftarrow> foreign_keys d, c \<leftarrow> columns d, c_id c = fk_from_column_id fk,
           c_table_id c = tid, fk_deleted_at fk = None, c_deleted_at c = None]"
  from assms have "map_of (rev ?L) cid = Some to_tid"
    unfolding get_fk_map_for_table_def .
  then have "(cid, to_tid) \<in> set (rev ?L)" by (rule map_of_SomeD)
  then have "(cid, to_tid) \<in> set ?L" by (simp only: set_rev)
  then show ?thesis by (auto split: if_splits)
qed

lemma values_clear_Cons:
  "values_clear d tid rid (x # cs) \<Longrightarrow> values_clear d tid rid [x] \<and> values_clear d tid rid cs"
  unfolding values_clear_def by simp

lemma validate_update_clear:
  assumes ok: "schema_ok d" and vc: "values_clear d tid rid cs"
  shows "validate_update d tid (col_map_for_table d tid) (get_fk_map_for_table d tid) rid cs = None"
  using vc
proof (induction cs)
  case Nil
  then show ?case by simp
next
  case (Cons x cs)
  obtain n v where x: "x = (n, v)" by (cases x)
  from values_clear_Cons [OF Cons.prems]
  have hd: "values_clear d tid rid [x]" and tl: "values_clear d tid rid cs" by simp_all
  note ih = Cons.IH [OF tl]
  from ok have pk: "distinct (map e_id (cell_history d))" by (simp add: schema_ok_def)
  show ?case
  proof (cases "col_get (col_map_for_table d tid) n")
    case Undefined
    with ih show ?thesis by (simp add: x)
  next
    case (Inherited t)
    with ih show ?thesis by (simp add: x)
  next
    case (ColEntry i u)
    from col_get_ColEntryD [OF ColEntry]
    obtain c where c: "c \<in> set (columns d)" "c_table_id c = tid" "c_deleted_at c = None"
      "c_name c = n" "c_id c = i" "c_is_unique c = u" by blast
    have u: "check_uniqueness d tid i n v rid = None" if "truthy v" "u \<noteq> 0"
    proof -
      from hd c that have "filter (\<lambda>r. r \<noteq> rid) (holders d tid i v) = []"
        unfolding values_clear_def x by auto
      then show ?thesis unfolding check_uniqueness_holders [OF pk that(1)] .
    qed
    have f: "check_fk_exists d to_tid v n = None"
      if "truthy v" "get_fk_map_for_table d tid i = Some to_tid" for to_tid
    proof -
      from fk_map_SomeD [OF that(2)]
      obtain fk where fk: "fk \<in> set (foreign_keys d)" "fk_deleted_at fk = None"
        "fk_from_column_id fk = i" "fk_to_table_id fk = to_tid" by blast
      from hd c that(1) fk
      have "case v of Some s \<Rightarrow> live_row d to_tid s | None \<Rightarrow> False"
        unfolding values_clear_def x by auto
      then show ?thesis unfolding check_fk_exists_live [OF that(1)] .
    qed
    from ColEntry ih u f show ?thesis by (auto simp: x split: option.splits)
  qed
qed

lemma inbound_iff:
  "(fcid, ftid, name) \<in> set (inbound d tid) \<longleftrightarrow>
     (\<exists>fk\<in>set (foreign_keys d). \<exists>c\<in>set (columns d). \<exists>t\<in>set (tables d).
        fk_to_table_id fk = tid \<and> fk_deleted_at fk = None \<and>
        c_id c = fk_from_column_id fk \<and> c_deleted_at c = None \<and>
        t_id t = c_table_id c \<and> t_deleted_at t = None \<and>
        fcid = fk_from_column_id fk \<and> ftid = c_table_id c \<and> name = t_name t)"
  unfolding inbound_def by (auto split: if_splits)


lemma check_inbound_None:
  "check_inbound d rid xs = None \<longleftrightarrow> (\<forall>(fcid, ftid, name)\<in>set xs. ref_count d ftid fcid rid = 0)"
  by (induction xs) (auto simp: Let_def split: if_splits)

lemma sql_max_filter_le: "sql_max (map f (filter P xs)) \<le> sql_max (map f xs)"
  by (induction xs) (auto simp: max_def)

lemma delete_row_marks:
  "net_deleted (d\<lparr>cell_history := cell_history d @ [deleted_event clock d tid rid]\<rparr>) tid rid"
proof -
  let ?n = "Suc (sql_max (map e_id (cell_history d)))"
  let ?d' = "d\<lparr>cell_history := cell_history d @ [deleted_event clock d tid rid]\<rparr>"
  have 1: "max_deleted ?d' tid rid = max (max_deleted d tid rid) ?n"
    by (simp add: max_deleted_def marks_def deleted_event_def sql_max_append)
  have 0: "max_restored ?d' tid rid = max_restored d tid rid"
    by (simp add: max_restored_def marks_def deleted_event_def)
  have "max_restored d tid rid \<le> sql_max (map e_id (cell_history d))"
    unfolding max_restored_def marks_def by (rule sql_max_filter_le)
  with 0 1 show ?thesis unfolding net_deleted_def by simp
qed

lemma delete_row_unfold:
  "delete_row clock d tid rid =
     (case check_inbound d rid (inbound d tid) of
        Some e \<Rightarrow> (Inl e, d)
      | None \<Rightarrow> (Inr (), d\<lparr>cell_history := cell_history d @ [deleted_event clock d tid rid]\<rparr>))"
  by (simp add: delete_row_def insert_event_def Let_def deleted_event_def split: option.splits)

lemma inbound_key_ref:
  assumes ok: "schema_ok d" and ns: "no_self_fk d"
  shows "(\<exists>(fcid, ftid, name)\<in>set (inbound d tid). ref_count d ftid fcid rid > 0 \<and>
            e = RowReferenced (ref_count d ftid fcid rid) name) \<longleftrightarrow>
         (\<exists>fk\<in>set (foreign_keys d). \<exists>c\<in>set (columns d). \<exists>t\<in>set (tables d).
            inbound_key d tid fk c t \<and> holders d (c_table_id c) (c_id c) (Some rid) \<noteq> [] \<and>
            e = RowReferenced (length (holders d (c_table_id c) (c_id c) (Some rid))) (t_name t))"
proof
  from ok have pk: "distinct (map e_id (cell_history d))" by (simp add: schema_ok_def)
  assume "\<exists>(fcid, ftid, name)\<in>set (inbound d tid). ref_count d ftid fcid rid > 0 \<and>
            e = RowReferenced (ref_count d ftid fcid rid) name"
  then obtain fcid ftid name where x: "(fcid, ftid, name) \<in> set (inbound d tid)"
    "ref_count d ftid fcid rid > 0" "e = RowReferenced (ref_count d ftid fcid rid) name" by auto
  from x(1) obtain fk c t where h: "fk \<in> set (foreign_keys d)" "c \<in> set (columns d)"
    "t \<in> set (tables d)" "fk_to_table_id fk = tid" "fk_deleted_at fk = None"
    "c_id c = fk_from_column_id fk" "c_deleted_at c = None" "t_id t = c_table_id c"
    "t_deleted_at t = None" "fcid = fk_from_column_id fk" "ftid = c_table_id c" "name = t_name t"
    unfolding inbound_iff by blast
  from ns h(1,2,4,5,6) have "c_table_id c \<noteq> tid" unfolding no_self_fk_def by auto
  with h have k: "inbound_key d tid fk c t" unfolding inbound_key_def by simp
  from ref_count_holders [OF pk, of ftid fcid rid] h(6,10,11)
  have rc: "ref_count d ftid fcid rid = length (holders d (c_table_id c) (c_id c) (Some rid))"
    by simp
  with x(2,3) h(12) have "holders d (c_table_id c) (c_id c) (Some rid) \<noteq> []"
    "e = RowReferenced (length (holders d (c_table_id c) (c_id c) (Some rid))) (t_name t)"
    by auto
  with k h(1,2,3) show "\<exists>fk\<in>set (foreign_keys d). \<exists>c\<in>set (columns d). \<exists>t\<in>set (tables d).
            inbound_key d tid fk c t \<and> holders d (c_table_id c) (c_id c) (Some rid) \<noteq> [] \<and>
            e = RowReferenced (length (holders d (c_table_id c) (c_id c) (Some rid))) (t_name t)"
    by blast
next
  from ok have pk: "distinct (map e_id (cell_history d))" by (simp add: schema_ok_def)
  assume "\<exists>fk\<in>set (foreign_keys d). \<exists>c\<in>set (columns d). \<exists>t\<in>set (tables d).
            inbound_key d tid fk c t \<and> holders d (c_table_id c) (c_id c) (Some rid) \<noteq> [] \<and>
            e = RowReferenced (length (holders d (c_table_id c) (c_id c) (Some rid))) (t_name t)"
  then obtain fk c t where h: "fk \<in> set (foreign_keys d)" "c \<in> set (columns d)"
    "t \<in> set (tables d)" "inbound_key d tid fk c t"
    "holders d (c_table_id c) (c_id c) (Some rid) \<noteq> []"
    "e = RowReferenced (length (holders d (c_table_id c) (c_id c) (Some rid))) (t_name t)"
    by blast
  from h(4) have k: "fk_to_table_id fk = tid" "fk_deleted_at fk = None"
    "c_id c = fk_from_column_id fk" "c_deleted_at c = None" "t_id t = c_table_id c"
    "t_deleted_at t = None" unfolding inbound_key_def by simp_all
  from h(1,2,3) k have "(c_id c, c_table_id c, t_name t) \<in> set (inbound d tid)"
    unfolding inbound_iff by auto
  moreover from ref_count_holders [OF pk, of "c_table_id c" "c_id c" rid] h(5,6)
  have "ref_count d (c_table_id c) (c_id c) rid > 0"
    "e = RowReferenced (ref_count d (c_table_id c) (c_id c) rid) (t_name t)" by auto
  ultimately show "\<exists>(fcid, ftid, name)\<in>set (inbound d tid). ref_count d ftid fcid rid > 0 \<and>
            e = RowReferenced (ref_count d ftid fcid rid) name" by blast
qed

lemma check_inbound_referenced:
  assumes ok: "schema_ok d" and ns: "no_self_fk d"
  shows "check_inbound d rid (inbound d tid) = None \<longleftrightarrow> \<not> referenced_undeleted d tid rid"
proof -
  have "check_inbound d rid (inbound d tid) \<noteq> None \<longleftrightarrow>
        (\<exists>e. \<exists>(fcid, ftid, name)\<in>set (inbound d tid). ref_count d ftid fcid rid > 0 \<and>
            e = RowReferenced (ref_count d ftid fcid rid) name)"
    unfolding check_inbound_None by (simp add: split_beta) blast
  also have "\<dots> \<longleftrightarrow> referenced_undeleted d tid rid"
    unfolding inbound_key_ref [OF ok ns] referenced_undeleted_def by blast
  finally show ?thesis by blast
qed


lemma delete_row_free:
  assumes "check_inbound d rid (inbound d tid) = None"
  shows "delete_row clock d tid rid =
           (Inr (), d\<lparr>cell_history := cell_history d @ [deleted_event clock d tid rid]\<rparr>)"
    and "rid \<notin> row_ids (snd (delete_row clock d tid rid)) tid"
proof -
  show 1: "delete_row clock d tid rid =
           (Inr (), d\<lparr>cell_history := cell_history d @ [deleted_event clock d tid rid]\<rparr>)"
    unfolding delete_row_unfold by (simp add: assms)
  show "rid \<notin> row_ids (snd (delete_row clock d tid rid)) tid"
    unfolding 1 using delete_row_marks [of d clock tid rid] row_ids_sound by fastforce
qed


lemma join_rows_value_filter:
  assumes "truthy v"
  shows "filter (\<lambda>(r, c, ch). e_value ch = v)
           (join_rows d tid cid (\<lambda>r ch. e_value ch \<noteq> None \<and> e_value ch \<noteq> Some [])) =
         join_rows d tid cid (\<lambda>r ch. e_value ch = v)"
  unfolding join_rows_def filter_filter
  using assms by (intro filter_cong) (auto simp: truthy_def)

lemma count_map_filter:
  "length (filter (\<lambda>w. w = v) (map f xs)) = length (filter (\<lambda>x. f x = v) xs)"
  by (induction xs) auto

lemma length_gt1_ne: "1 < length xs \<Longrightarrow> xs \<noteq> []"
  by auto

lemma dupes_iff:
  assumes pk: "distinct (map e_id (cell_history d))"
  shows "dupes d tid cid \<noteq> [] \<longleftrightarrow>
           (\<exists>e\<in>set (cell_rows d tid).
              truthy (e_value e) \<and> 1 < length (holders d tid cid (e_value e)))"
proof -
  let ?P = "\<lambda>r ch. e_value ch \<noteq> None \<and> e_value ch \<noteq> Some []"
  let ?J = "join_rows d tid cid ?P"
  let ?f = "\<lambda>(r, c, ch). e_value ch"
  have cnt: "length (filter (\<lambda>w. w = v) (map ?f ?J)) = length (holders d tid cid v)"
    if "truthy v" for v
  proof -
    have "length (filter (\<lambda>w. w = v) (map ?f ?J)) = length (filter (\<lambda>x. ?f x = v) ?J)"
      by (rule count_map_filter)
    also have "filter (\<lambda>x. ?f x = v) ?J = filter (\<lambda>(r, c, ch). e_value ch = v) ?J"
      by (intro filter_cong) auto
    also have "\<dots> = join_rows d tid cid (\<lambda>r ch. e_value ch = v)"
      by (rule join_rows_value_filter [OF that])
    also have "length \<dots> = length (holders d tid cid v)" by (rule join_rows_length [OF pk])
    finally show ?thesis .
  qed
  have d: "dupes d tid cid \<noteq> [] \<longleftrightarrow>
        (\<exists>v\<in>set (map ?f ?J). 1 < length (filter (\<lambda>w. w = v) (map ?f ?J)))"
    unfolding dupes_join Let_def by (simp add: filter_empty_conv)
  show ?thesis unfolding d
  proof
    assume "\<exists>v\<in>set (map ?f ?J). 1 < length (filter (\<lambda>w. w = v) (map ?f ?J))"
    then obtain v where v: "v \<in> set (map ?f ?J)"
      "1 < length (filter (\<lambda>w. w = v) (map ?f ?J))" by blast
    from v(1) obtain r k ch where x: "(r, k, ch) \<in> set ?J" "e_value ch = v" by auto
    from x(1) have le: "latest_event d tid r cid = Some ch" and tr: "truthy (e_value ch)"
      unfolding join_rows_iff [OF pk] truthy_def by simp_all
    from latest_event_SomeD(1) [OF le] have "ch \<in> set (cell_rows d tid)"
      by (simp add: group_of_def)
    moreover from v(2) tr x(2) have "1 < length (holders d tid cid (e_value ch))"
      using cnt [of v] by simp
    ultimately show "\<exists>e\<in>set (cell_rows d tid).
              truthy (e_value e) \<and> 1 < length (holders d tid cid (e_value e))"
      using tr by blast
  next
    assume "\<exists>e\<in>set (cell_rows d tid).
              truthy (e_value e) \<and> 1 < length (holders d tid cid (e_value e))"
    then obtain e where e0: "e \<in> set (cell_rows d tid)"
      and e: "truthy (e_value e)" "1 < length (holders d tid cid (e_value e))"
      by blast
    define v where "v = e_value e"
    from e have tv: "truthy v" and big: "1 < length (holders d tid cid v)"
      by (simp_all add: v_def)
    from big cnt [OF tv] have c2: "1 < length (filter (\<lambda>w. w = v) (map ?f ?J))" by simp
    then have "filter (\<lambda>w. w = v) (map ?f ?J) \<noteq> []" by (rule length_gt1_ne)
    then have "v \<in> set (map ?f ?J)" unfolding filter_empty_conv by blast
    with c2 show "\<exists>v\<in>set (map ?f ?J). 1 < length (filter (\<lambda>w. w = v) (map ?f ?J))" by blast
  qed
qed

lemma dupes_duplicate:
  assumes "schema_ok d"
  shows "dupes d (c_table_id c) (c_id c) \<noteq> [] \<longleftrightarrow> duplicate_undeleted d c"
proof -
  from assms have pk: "distinct (map e_id (cell_history d))" by (simp add: schema_ok_def)
  show ?thesis unfolding dupes_iff [OF pk] duplicate_undeleted_def ..
qed

lemma duplicate_undeleted_if: "duplicate_rows d c \<Longrightarrow> duplicate_undeleted d c"
proof -
  assume "duplicate_rows d c"
  then obtain e where e: "e \<in> set (cell_rows d (c_table_id c))" "truthy (e_value e)"
    "1 < length (live_holders d (c_table_id c) (c_id c) (e_value e))"
    unfolding duplicate_rows_def by blast
  from e(3) live_holders_length [of d "c_table_id c" "c_id c" "e_value e"]
  have "1 < length (holders d (c_table_id c) (c_id c) (e_value e))" by simp
  with e(1,2) show ?thesis unfolding duplicate_undeleted_def by blast
qed

lemma set_column_unique_unfold:
  assumes "schema_ok d" "c \<in> set (columns d)" "c_deleted_at c = None"
  shows "set_column_unique d (c_id c) u =
           (if u \<and> dupes d (c_table_id c) (c_id c) \<noteq> []
            then (Inl (DuplicateValues (c_name c)), d)
            else (Inr (c_id c, if u then 1 else 0),
                  with_unique_flag d (c_id c) (if u then 1 else 0)))"
proof -
  from assms(1) have "distinct (map c_id (columns d))" by (simp add: schema_ok_def)
  from live_column_filter [OF this assms(2,3)] show ?thesis
    by (simp add: set_column_unique_def with_unique_flag_def)
qed

lemma with_unique_flag_sets:
  assumes "c \<in> set (columns d)" "c_deleted_at c = None"
  shows "c\<lparr>c_is_unique := u\<rparr> \<in> set (columns (with_unique_flag d (c_id c) u))"
  using assms unfolding with_unique_flag_def by force

section \<open>The claims\<close>

subsection \<open>C1: which rows are reconstructed\<close>

text \<open>
  C1, amended.  For every table none of whose events bears the name of a member of
  \<open>Object.prototype\<close> as row id, and for every row identifier: \<open>get_rows\<close> returns; a
  row it reports is never net-deleted (its greatest "deleted" id is not greater than its
  greatest "restored" id) and has a row-created event or a cell event for a live column;
  and a row that is not net-deleted is reported whenever it has a cell event for a live
  column of the table (with or without a row-created event), or a row-created event and
  no cell event at all.
\<close>

theorem get_rows_liveness:
  assumes "plain_row_ids d tid"
  shows "(\<exists>rows. get_rows d tid = Inr rows) \<and>
   (r \<in> row_ids d tid \<longrightarrow>
      \<not> max_deleted d tid r > max_restored d tid r \<and>
      (has_created d tid r \<or> has_live_cell d tid r)) \<and>
   (\<not> max_deleted d tid r > max_restored d tid r \<and>
      (has_live_cell d tid r \<or> (has_created d tid r \<and> \<not> has_cell d tid r)) \<longrightarrow>
      r \<in> row_ids d tid)"
proof -
  from get_rows_plain [OF assms] have 1: "\<exists>rows. get_rows d tid = Inr rows" by blast
  from get_rows_row_iff [OF assms, of r]
  have 2: "r \<in> row_ids d tid \<longleftrightarrow>
     \<not> max_deleted d tid r > max_restored d tid r \<and>
     (has_live_cell d tid r \<or> (has_created d tid r \<and> \<not> has_cell d tid r))"
    unfolding net_deleted_def .
  from 1 2 show ?thesis by blast
qed

theorem get_rows_liveness_witness:
  "plain_row_ids sample_db 1 \<and>
   (\<exists>rows. get_rows sample_db 1 = Inr rows) \<and>
   ''r1'' \<in> row_ids sample_db 1 \<and>
   \<not> max_deleted sample_db 1 ''r1'' > max_restored sample_db 1 ''r1'' \<and>
   has_created sample_db 1 ''r1'' \<and> has_live_cell sample_db 1 ''r1''"
proof -
  have p: "plain_row_ids sample_db 1" by code_simp
  have h: "\<not> max_deleted sample_db 1 ''r1'' > max_restored sample_db 1 ''r1''"
    "has_created sample_db 1 ''r1''" "has_live_cell sample_db 1 ''r1''" by code_simp+
  from get_rows_liveness [OF p, of "''r1''"] p h show ?thesis by blast
qed

text \<open>
  The claim as stated fails in both directions on the sample database, whose row ids
  are plain: \<open>r9\<close> is reported without a row-created event, and \<open>r2\<close>, created and never
  deleted, is not reported.
\<close>

theorem get_rows_liveness_counterexample:
  "plain_row_ids sample_db 1 \<and>
   \<not> (''r9'' \<in> row_ids sample_db 1 \<longleftrightarrow>
        has_created sample_db 1 ''r9'' \<and>
        \<not> max_deleted sample_db 1 ''r9'' > max_restored sample_db 1 ''r9'') \<and>
   \<not> (''r2'' \<in> row_ids sample_db 1 \<longleftrightarrow>
        has_created sample_db 1 ''r2'' \<and>
        \<not> max_deleted sample_db 1 ''r2'' > max_restored sample_db 1 ''r2'')"
  by code_simp

subsection \<open>C2: the value of a cell\<close>

text \<open>
  C2, on the code.  In \<open>constructor_db\<close> the row \<open>r1\<close> is live, the column \<open>Title\<close> is
  live, and the event of greatest id of the pair carries \<open>Buy eggs\<close>; yet \<open>get_rows\<close>
  reports no value at all: it throws, because some other row of the table bears the id
  \<open>constructor\<close>.  In \<open>proto_column_db\<close> the live row \<open>r1\<close> holds \<open>v\<close> in the live column
  named \<open>__proto__\<close>; \<open>get_rows\<close> returns, and its row \<open>r1\<close> has no cell of that name.
\<close>

theorem get_rows_loses_values:
  "live_row constructor_db 1 ''r1'' \<and>
   map c_name (filter (\<lambda>c. c_id c = 1 \<and> c_table_id c = 1 \<and> c_deleted_at c = None)
     (columns constructor_db)) = [''Title''] \<and>
   holds constructor_db 1 ''r1'' 1 (Some ''Buy eggs'') \<and>
   get_rows constructor_db 1 = Inl TypeError \<and>
   live_row proto_column_db 1 ''r1'' \<and>
   map c_name (filter (\<lambda>c. c_id c = 5 \<and> c_table_id c = 1 \<and> c_deleted_at c = None)
     (columns proto_column_db)) = [''__proto__''] \<and>
   holds proto_column_db 1 ''r1'' 5 (Some ''v'') \<and>
   get_rows proto_column_db 1 =
     Inr [\<lparr>row_id = ''r1'',
           cells = [(''Title'', Some ''Buy eggs''), (''Owner'', Some ''p1'')],
           last_modified = ''2024-05-01T12:00:00.000''\<rparr>,
          \<lparr>row_id = ''r9'', cells = [(''Title'', Some ''Stray'')],
           last_modified = ''2024-05-01T10:00:00.000''\<rparr>]"
  by code_simp

subsection \<open>C3: reuse of a soft-deleted name\<close>

text \<open>
  C3, on the code.  In \<open>reuse_db\<close> the only table named \<open>Tasks\<close> is tombstoned and the
  only column named \<open>Title\<close> of the live table \<open>Notes\<close> is tombstoned, so no live
  sibling bears either name.  Yet \<open>create_table\<close> with the name \<open>Tasks\<close> fails, with the
  engine's constraint error, although its own check for a live table of that name
  passes; and \<open>create_column\<close> with the name \<open>Title\<close> on \<open>Notes\<close> fails with the
  conflict error.  The \<open>UNIQUE\<close> constraints of the schema range over tombstoned records
  as well.
\<close>

theorem create_after_soft_delete_fails:
  "filter (\<lambda>t. t_name t = ''Tasks'' \<and> t_deleted_at t = None) (tables reuse_db) = [] \<and>
   filter (\<lambda>t. t_name t = ''Tasks'' \<and> t_deleted_at t \<noteq> None) (tables reuse_db) \<noteq> [] \<and>
   create_table (noon 0) reuse_db ''Tasks'' = (Inl (SqliteUnique ''tables.name''), reuse_db) \<and>
   filter (\<lambda>c. c_table_id c = 2 \<and> c_name c = ''Title'' \<and> c_deleted_at c = None)
     (columns reuse_db) = [] \<and>
   filter (\<lambda>c. c_table_id c = 2 \<and> c_name c = ''Title'' \<and> c_deleted_at c \<noteq> None)
     (columns reuse_db) \<noteq> [] \<and>
   filter (\<lambda>t. t_id t = 2 \<and> t_deleted_at t = None) (tables reuse_db) \<noteq> [] \<and>
   create_column (noon 0) reuse_db 2 ''Title'' 0 = (Inl (ColumnExists ''Title''), reuse_db)"
  by code_simp

subsection \<open>C4: deleting a table\<close>

text \<open>
  C4, on the code.  \<open>Tasks\<close> has no live row in \<open>cascade_db\<close>.  When the second of the
  three statements of \<open>delete_table\<close> throws, the call fails and leaves the database
  with the foreign key of \<open>Owner\<close> tombstoned while the column and the table are still
  live: nothing is rolled back.
\<close>

theorem delete_table_not_atomic:
  "live_row_count cascade_db 1 = 0 \<and>
   fst (delete_table (Some 1) noon cascade_db 1) = Inl EngineFault \<and>
   snd (delete_table (Some 1) noon cascade_db 1) \<noteq> cascade_db \<and>
   map fk_deleted_at (foreign_keys (snd (delete_table (Some 1) noon cascade_db 1))) =
     [Some ''2024-05-01T12:00:00.000''] \<and>
   map c_deleted_at (columns (snd (delete_table (Some 1) noon cascade_db 1))) = [None] \<and>
   map t_deleted_at (tables (snd (delete_table (Some 1) noon cascade_db 1))) = [None, None]"
  by code_simp

subsection \<open>C8: creating a foreign key\<close>

text \<open>
  C8.  \<open>create_foreign_key\<close> fails, leaving the database as it was, whenever the
  column does not exist live, or its owning table is the target table, or the target
  table does not exist live, or the column already has a live foreign key; in every
  other case it succeeds and appends one live key from the column to the target.  Hence
  a database in which no column holds two live foreign keys stays so.
\<close>

theorem create_foreign_key_cases:
  assumes "distinct (map c_id (columns d))"
  shows "(\<not> col_live d cid \<or> col_in_table d cid tid \<or> \<not> table_live d tid \<or>
            live_fks d cid \<noteq> [] \<longrightarrow>
            isl (fst (create_foreign_key now d cid tid)) \<and>
            snd (create_foreign_key now d cid tid) = d) \<and>
         (\<not> (\<not> col_live d cid \<or> col_in_table d cid tid \<or> \<not> table_live d tid \<or>
               live_fks d cid \<noteq> []) \<longrightarrow>
            create_foreign_key now d cid tid =
              (Inr (fk_id (new_fk now d cid tid), cid, tid),
               d\<lparr>foreign_keys := foreign_keys d @ [new_fk now d cid tid]\<rparr>)) \<and>
         (one_fk_per_column d \<longrightarrow> one_fk_per_column (snd (create_foreign_key now d cid tid)))"
proof (cases "\<not> col_live d cid \<or> col_in_table d cid tid \<or> \<not> table_live d tid \<or>
            live_fks d cid \<noteq> []")
  case True
  from create_foreign_key_fail [OF assms True] True show ?thesis by simp
next
  case False
  then have h: "col_live d cid" "\<not> col_in_table d cid tid" "table_live d tid"
    "live_fks d cid = []" by simp_all
  from create_foreign_key_ok [OF assms h] one_fk_append [OF _ h(4)] False
  show ?thesis by simp
qed

theorem create_foreign_key_cases_witness:
  "isl (fst (create_foreign_key ''2024-05-02T08:00:00.000'' sample_db 2 2)) \<and>
   snd (create_foreign_key ''2024-05-02T08:00:00.000'' sample_db 2 2) = sample_db \<and>
   create_foreign_key ''2024-05-02T08:00:00.000'' sample_db 3 1 =
     (Inr (2, 3, 1),
      sample_db\<lparr>foreign_keys := foreign_keys sample_db @
         [new_fk ''2024-05-02T08:00:00.000'' sample_db 3 1]\<rparr>) \<and>
   one_fk_per_column (snd (create_foreign_key ''2024-05-02T08:00:00.000'' sample_db 3 1))"
proof -
  have pk: "distinct (map c_id (columns sample_db))" by code_simp
  have bad: "\<not> col_live sample_db 2 \<or> col_in_table sample_db 2 2 \<or> \<not> table_live sample_db 2 \<or>
            live_fks sample_db 2 \<noteq> []" by code_simp
  have good: "\<not> (\<not> col_live sample_db 3 \<or> col_in_table sample_db 3 1 \<or> \<not> table_live sample_db 1 \<or>
            live_fks sample_db 3 \<noteq> [])" by code_simp
  have one: "one_fk_per_column sample_db" by code_simp
  have i: "fk_id (new_fk ''2024-05-02T08:00:00.000'' sample_db 3 1) = 2" by code_simp
  note a = create_foreign_key_cases [OF pk, of 2 2 "''2024-05-02T08:00:00.000''"]
  note b = create_foreign_key_cases [OF pk, of 3 1 "''2024-05-02T08:00:00.000''"]
  from a bad have c1: "isl (fst (create_foreign_key ''2024-05-02T08:00:00.000'' sample_db 2 2)) \<and>
   snd (create_foreign_key ''2024-05-02T08:00:00.000'' sample_db 2 2) = sample_db" by blast
  from b good have c2: "create_foreign_key ''2024-05-02T08:00:00.000'' sample_db 3 1 =
     (Inr (fk_id (new_fk ''2024-05-02T08:00:00.000'' sample_db 3 1), 3, 1),
      sample_db\<lparr>foreign_keys := foreign_keys sample_db @
         [new_fk ''2024-05-02T08:00:00.000'' sample_db 3 1]\<rparr>)" by blast
  from b one
  have c3: "one_fk_per_column (snd (create_foreign_key ''2024-05-02T08:00:00.000'' sample_db 3 1))"
    by blast
  from c1 c2 [unfolded i] c3 show ?thesis by blast
qed

subsection \<open>C9: updating a row\<close>

text \<open>
  C9, on the code.  \<open>Tasks\<close> has no live column named \<open>toString\<close>, so the request below
  supplies no recognised name.  Yet \<open>update_row\<close> does not fail with \<open>NoValidColumns\<close>:
  \<open>colMap['toString']\<close> is the method inherited from \<open>Object.prototype\<close>, not
  \<open>undefined\<close>, so the name is not skipped, the call succeeds, and an event without a
  column is appended to the log.
\<close>

theorem update_row_accepts_member_name:
  "filter (\<lambda>c. c_table_id c = 1 \<and> c_deleted_at c = None \<and> c_name c = ''toString'')
     (columns sample_db) = [] \<and>
   recognised sample_db 1 [(''toString'', Some ''x'')] = [] \<and>
   update_row noon sample_db 1 ''r1'' [(''toString'', Some ''x'')] =
     (Inr ''r1'',
      sample_db\<lparr>cell_history := cell_history sample_db @
         [mk_event 12 1 ''r1'' None None (Some ''x'')\<lparr>e_timestamp := noon 12\<rparr>]\<rparr>)"
  by code_simp

subsection \<open>C5: a failed create leaves the log unchanged\<close>

text \<open>
  C5.  Whenever \<open>create_row\<close> fails, the database, hence the event log, is left exactly
  as it was: every check runs before the first write.  In particular, on a database that
  satisfies the schema's constraints, it fails when a supplied non-empty value for a live
  unique column of the table is the value currently held in that column by some other
  row that is not net-deleted, a live row in particular; and, when the events name
  columns of their own table, it fails when that value is the one that \<open>get_rows\<close>
  reports in that column for some other row.
\<close>

theorem create_row_failure_leaves_log:
  "(isl (fst (create_row clock rid d tid cs)) \<longrightarrow>
      snd (create_row clock rid d tid cs) = d \<and>
      cell_history (snd (create_row clock rid d tid cs)) = cell_history d) \<and>
   (schema_ok d \<and> c \<in> set (columns d) \<and> c_table_id c = tid \<and>
    c_deleted_at c = None \<and> c_is_unique c \<noteq> 0 \<and> (c_name c, Some v) \<in> set cs \<and> v \<noteq> [] \<and>
    r \<noteq> rid \<and> \<not> net_deleted d tid r \<and> holds d tid r (c_id c) (Some v) \<longrightarrow>
      isl (fst (create_row clock rid d tid cs)) \<and>
      cell_history (snd (create_row clock rid d tid cs)) = cell_history d) \<and>
   (schema_ok d \<and> events_scoped d \<and> c \<in> set (columns d) \<and> c_table_id c = tid \<and>
    c_deleted_at c = None \<and> c_is_unique c \<noteq> 0 \<and> (c_name c, Some v) \<in> set cs \<and> v \<noteq> [] \<and>
    r \<noteq> rid \<and> reports d tid r c (Some v) \<longrightarrow>
      isl (fst (create_row clock rid d tid cs)) \<and>
      cell_history (snd (create_row clock rid d tid cs)) = cell_history d)"
proof -
  have 1: "isl (fst (create_row clock rid d tid cs)) \<longrightarrow>
      snd (create_row clock rid d tid cs) = d \<and>
      cell_history (snd (create_row clock rid d tid cs)) = cell_history d"
    using create_row_fail_unchanged [of clock rid d tid cs] by simp
  have 2: "isl (fst (create_row clock rid d tid cs))"
    if h: "schema_ok d" "c \<in> set (columns d)" "c_table_id c = tid"
      "c_deleted_at c = None" "c_is_unique c \<noteq> 0" "(c_name c, Some v) \<in> set cs" "v \<noteq> []"
      "r \<noteq> rid" "\<not> net_deleted d tid r" "holds d tid r (c_id c) (Some v)"
  proof (rule ccontr)
    assume "\<not> isl (fst (create_row clock rid d tid cs))"
    then have none: "validate_create d tid (col_map_for_table d tid)
        (get_fk_map_for_table d tid) rid cs = None"
      by (simp add: create_row_fails_iff)
    from h(1) have pk: "distinct (map e_id (cell_history d))" by (simp add: schema_ok_def)
    from h(7) have tr: "truthy (Some v)" by (simp add: truthy_def)
    from validate_create_None [OF none h(6) col_get_schema [OF h(1,2,3,4)] tr h(5)]
      check_uniqueness_holds [OF pk tr h(8,9,10)]
    show False by simp
  qed
  have 3: "\<not> net_deleted d tid r \<and> holds d tid r (c_id c) (Some v)"
    if "schema_ok d" "events_scoped d" "c \<in> set (columns d)" "c_table_id c = tid"
      "reports d tid r c (Some v)"
    using that by (rule reports_holds)
  from 1 2 3 show ?thesis by blast
qed

theorem create_row_failure_leaves_log_witness:
  "live_row sample_db 1 ''r1'' \<and>
   holds sample_db 1 ''r1'' 1 (Some ''Buy eggs'') \<and>
   reports sample_db 1 ''r1'' (mk_column 1 1 ''Title'' 0 1 None) (Some ''Buy eggs'') \<and>
   isl (fst (create_row noon ''r7'' sample_db 1 [(''Title'', Some ''Buy eggs'')])) \<and>
   cell_history (snd (create_row noon ''r7'' sample_db 1 [(''Title'', Some ''Buy eggs'')])) =
     cell_history sample_db"
proof -
  let ?c = "mk_column 1 1 ''Title'' 0 1 None"
  have l: "live_row sample_db 1 ''r1''" by code_simp
  have r: "reports sample_db 1 ''r1'' ?c (Some ''Buy eggs'')" by code_simp
  have i: "c_id ?c = 1" by (simp add: mk_column_def)
  have h: "schema_ok sample_db \<and> ?c \<in> set (columns sample_db) \<and>
    c_table_id ?c = 1 \<and> c_deleted_at ?c = None \<and> c_is_unique ?c \<noteq> 0 \<and>
    (c_name ?c, Some ''Buy eggs'') \<in> set [(''Title'', Some ''Buy eggs'')] \<and> ''Buy eggs'' \<noteq> [] \<and>
    ''r1'' \<noteq> ''r7'' \<and> \<not> net_deleted sample_db 1 ''r1'' \<and>
    holds sample_db 1 ''r1'' (c_id ?c) (Some ''Buy eggs'')"
    by code_simp
  from create_row_failure_leaves_log [of noon "''r7''" sample_db 1
      "[(''Title'', Some ''Buy eggs'')]" ?c "''Buy eggs''" "''r1''"] h
  have "isl (fst (create_row noon ''r7'' sample_db 1 [(''Title'', Some ''Buy eggs'')])) \<and>
   cell_history (snd (create_row noon ''r7'' sample_db 1 [(''Title'', Some ''Buy eggs'')])) =
     cell_history sample_db" by blast
  moreover from h have "holds sample_db 1 ''r1'' 1 (Some ''Buy eggs'')" unfolding i by blast
  ultimately show ?thesis using l r by blast
qed

subsection \<open>C6: deleting a row\<close>




subsection \<open>C7: enabling uniqueness\<close>

text \<open>
  C7, amended.  On a database that satisfies the schema's constraints, for a live
  column: enabling uniqueness fails, leaving the database and so the flag as they were,
  exactly when some non-empty value is currently held in the column by more than one row
  that is not net-deleted, whether or not these rows were ever created; in particular it
  fails when more than one live row holds the value.  When there is no such value it
  succeeds and the column's flag is set.
\<close>

theorem set_column_unique_duplicates:
  assumes "schema_ok d" and "c \<in> set (columns d)" and "c_deleted_at c = None"
  shows "(duplicate_undeleted d c \<longrightarrow>
            set_column_unique d (c_id c) True = (Inl (DuplicateValues (c_name c)), d)) \<and>
         (duplicate_rows d c \<longrightarrow>
            set_column_unique d (c_id c) True = (Inl (DuplicateValues (c_name c)), d)) \<and>
         (\<not> duplicate_undeleted d c \<longrightarrow>
            set_column_unique d (c_id c) True =
              (Inr (c_id c, 1), with_unique_flag d (c_id c) 1) \<and>
            c\<lparr>c_is_unique := 1\<rparr> \<in> set (columns (with_unique_flag d (c_id c) 1)))"
  unfolding set_column_unique_unfold [OF assms]
  using dupes_duplicate [OF assms(1), of c] duplicate_undeleted_if [of d c]
    with_unique_flag_sets [OF assms(2,3), of 1] by auto

theorem set_column_unique_duplicates_witness:
  "duplicate_rows twin_owner_db (mk_column 2 1 ''Owner'' 1 0 None) \<and>
   duplicate_undeleted twin_owner_db (mk_column 2 1 ''Owner'' 1 0 None) \<and>
   set_column_unique twin_owner_db 2 True = (Inl (DuplicateValues ''Owner''), twin_owner_db) \<and>
   \<not> duplicate_undeleted sample_db (mk_column 2 1 ''Owner'' 1 0 None) \<and>
   set_column_unique sample_db 2 True = (Inr (2, 1), with_unique_flag sample_db 2 1) \<and>
   mk_column 2 1 ''Owner'' 1 1 None \<in> set (columns (with_unique_flag sample_db 2 1))"
proof -
  let ?c = "mk_column 2 1 ''Owner'' 1 0 None"
  have a: "schema_ok twin_owner_db" "?c \<in> set (columns twin_owner_db)" "c_deleted_at ?c = None"
    by code_simp+
  have b: "schema_ok sample_db" "?c \<in> set (columns sample_db)" "c_deleted_at ?c = None"
    by code_simp+
  have dup: "duplicate_rows twin_owner_db ?c" "duplicate_undeleted twin_owner_db ?c"
    by code_simp+
  have nodup: "\<not> duplicate_undeleted sample_db ?c" by code_simp
  have i: "c_id ?c = 2" "c_name ?c = ''Owner''"
    "?c\<lparr>c_is_unique := 1\<rparr> = mk_column 2 1 ''Owner'' 1 1 None"
    by (simp_all add: mk_column_def)
  from set_column_unique_duplicates [OF a] dup(1)
  have 1: "set_column_unique twin_owner_db 2 True =
      (Inl (DuplicateValues ''Owner''), twin_owner_db)" unfolding i by blast
  from set_column_unique_duplicates [OF b] nodup
  have 2: "set_column_unique sample_db 2 True = (Inr (2, 1), with_unique_flag sample_db 2 1) \<and>
     mk_column 2 1 ''Owner'' 1 1 None \<in> set (columns (with_unique_flag sample_db 2 1))"
    unfolding i by blast
  from dup nodup 1 2 show ?thesis by blast
qed

text \<open>
  The claim as stated fails on \<open>shared_owner_db\<close>: \<open>r1\<close> is the only live row that
  holds \<open>p1\<close> in \<open>Owner\<close>, the other holder being the identifier \<open>r9\<close>, which has no
  row-created event; no value appears in more than one live row, yet the flag is not set.
\<close>

theorem set_column_unique_duplicates_counterexample:
  "\<not> duplicate_rows shared_owner_db (mk_column 2 1 ''Owner'' 1 0 None) \<and>
   live_holders shared_owner_db 1 2 (Some ''p1'') = [''r1''] \<and>
   holders shared_owner_db 1 2 (Some ''p1'') = [''r1'', ''r9''] \<and>
   set_column_unique shared_owner_db 2 True =
     (Inl (DuplicateValues ''Owner''), shared_owner_db)"
  by code_simp

subsection \<open>C10: no check that the row exists\<close>

text \<open>
  C10, amended.  Neither operation looks at the row itself; the identifier \<open>rid\<close> below
  is arbitrary, never created or already net-deleted ones included.  On a database that
  satisfies the schema's constraints, \<open>update_row\<close> succeeds and appends its cell events
  under that identifier whenever a supplied name is recognised and, for every supplied
  non-empty value of a live column of the table, no other row that is not net-deleted,
  created or not, holds the value if the column is unique, and the value is the id of a
  live row of the target table if the column bears a live foreign key.  \<open>delete_row\<close>
  succeeds and appends one more lifecycle event marking "deleted" whenever no row that
  is not net-deleted, created or not, of another table holds the identifier through a
  live foreign key.
\<close>

theorem row_existence_unchecked:
  "(schema_ok d \<and> recognised d tid cs \<noteq> [] \<and> values_clear d tid rid cs
      \<longrightarrow> update_row clock d tid rid cs =
            (Inr rid, d\<lparr>cell_history := cell_history d @ update_events clock d tid rid cs\<rparr>) \<and>
          update_events clock d tid rid cs \<noteq> [] \<and>
          (\<forall>e\<in>set (update_events clock d tid rid cs). e_row_id e = rid \<and> e_table_id e = tid \<and>
              e_sentinel e = None)) \<and>
   (schema_ok d \<and> no_self_fk d \<and> \<not> referenced_undeleted d tid rid
      \<longrightarrow> delete_row clock d tid rid =
            (Inr (), d\<lparr>cell_history := cell_history d @ [deleted_event clock d tid rid]\<rparr>))"
proof -
  have 1: "update_row clock d tid rid cs =
            (Inr rid, d\<lparr>cell_history := cell_history d @ update_events clock d tid rid cs\<rparr>) \<and>
          update_events clock d tid rid cs \<noteq> []"
    if "schema_ok d" "recognised d tid cs \<noteq> []" "values_clear d tid rid cs"
  proof -
    from update_events_nonempty [OF that(2)]
    have ne: "update_events clock d tid rid cs \<noteq> []" .
    then have "length (update_events clock d tid rid cs) \<noteq> 0" by simp
    then have acc: "filter (accepted (col_map_for_table d tid)) cs \<noteq> []"
      unfolding update_events_length by simp
    from validate_update_clear [OF that(1,3)] acc ne show ?thesis
      unfolding update_row_unfold by simp
  qed
  have 2: "delete_row clock d tid rid =
            (Inr (), d\<lparr>cell_history := cell_history d @ [deleted_event clock d tid rid]\<rparr>)"
    if "schema_ok d" "no_self_fk d" "\<not> referenced_undeleted d tid rid"
  proof -
    from that have "check_inbound d rid (inbound d tid) = None"
      by (simp add: check_inbound_referenced)
    then show ?thesis by (rule delete_row_free)
  qed
  from 1 2 update_events_row [of clock d tid rid cs] show ?thesis by blast
qed

theorem row_existence_unchecked_witness:
  "\<not> has_created sample_db 1 ''zz'' \<and> \<not> has_cell sample_db 1 ''zz'' \<and>
   update_row noon sample_db 1 ''zz'' [(''Owner'', Some ''p1'')] =
     (Inr ''zz'',
      sample_db\<lparr>cell_history := cell_history sample_db @
         [mk_event 12 1 ''zz'' (Some 2) None (Some ''p1'')\<lparr>e_timestamp := noon 12\<rparr>]\<rparr>) \<and>
   max_deleted sample_db 1 ''r3'' > max_restored sample_db 1 ''r3'' \<and>
   delete_row noon sample_db 1 ''r3'' =
     (Inr (),
      sample_db\<lparr>cell_history := cell_history sample_db @
         [mk_event 12 1 ''r3'' None (Some ''__deleted__'') (Some ''1'')
            \<lparr>e_timestamp := noon 12\<rparr>]\<rparr>)"
proof -
  let ?cs = "[(''Owner'', Some ''p1'')]"
  have u: "schema_ok sample_db \<and> recognised sample_db 1 ?cs \<noteq> [] \<and>
    values_clear sample_db 1 ''zz'' ?cs" by code_simp
  have v: "schema_ok sample_db \<and> no_self_fk sample_db \<and>
    \<not> referenced_undeleted sample_db 1 ''r3''" by code_simp
  have e1: "update_events noon sample_db 1 ''zz'' ?cs =
     [mk_event 12 1 ''zz'' (Some 2) None (Some ''p1'')\<lparr>e_timestamp := noon 12\<rparr>]" by code_simp
  have e2: "deleted_event noon sample_db 1 ''r3'' =
     mk_event 12 1 ''r3'' None (Some ''__deleted__'') (Some ''1'')\<lparr>e_timestamp := noon 12\<rparr>"
    by code_simp
  have g: "\<not> has_created sample_db 1 ''zz''" "\<not> has_cell sample_db 1 ''zz''"
    "max_deleted sample_db 1 ''r3'' > max_restored sample_db 1 ''r3''" by code_simp+
  note t = row_existence_unchecked [of sample_db 1 _ _ noon]
  from t [of ?cs "''zz''"] u
  have 1: "update_row noon sample_db 1 ''zz'' ?cs =
     (Inr ''zz'', sample_db\<lparr>cell_history := cell_history sample_db @
         update_events noon sample_db 1 ''zz'' ?cs\<rparr>)" by blast
  from t [of ?cs "''r3''"] v
  have 2: "delete_row noon sample_db 1 ''r3'' =
     (Inr (), sample_db\<lparr>cell_history := cell_history sample_db @
         [deleted_event noon sample_db 1 ''r3'']\<rparr>)" by blast
  from g 1 2 show ?thesis unfolding e1 e2 by blast
qed

text \<open>
  The claim as stated fails in both halves.  On the sample database the title \<open>Stray\<close>
  is held by no live row, the only holder being the identifier \<open>r9\<close>, which has no
  row-created event: the value passes validation as the specification describes it, yet
  \<open>update_row\<close> rejects it for \<open>r1\<close>.  On \<open>stray_owner_db\<close> no live row references
  \<open>p1\<close>, yet \<open>delete_row\<close> does not succeed.
\<close>

theorem row_existence_unchecked_counterexample:
  "recognised sample_db 1 [(''Title'', Some ''Stray'')] = [(''Title'', Some ''Stray'')] \<and>
   values_valid sample_db 1 ''r1'' [(''Title'', Some ''Stray'')] \<and>
   live_holders sample_db 1 1 (Some ''Stray'') = [] \<and>
   update_row noon sample_db 1 ''r1'' [(''Title'', Some ''Stray'')] =
     (Inl (UniqueViolation ''Stray'' ''Title''), sample_db) \<and>
   live_holders stray_owner_db 1 2 (Some ''p1'') = [] \<and>
   \<not> referenced stray_owner_db 2 ''p1'' \<and>
   isl (fst (delete_row noon stray_owner_db 2 ''p1''))"
  by code_simp

end
